theory Spec2Isabelle
  imports Main
begin

section \<open>Data model\<close>

text \<open>
  A date object of Crossref (\<^verbatim>\<open>published-print\<close>, \<^verbatim>\<open>published-online\<close>,
  \<^verbatim>\<open>created\<close>): what \<^verbatim>\<open>get("date-parts")\<close> yields (\<open>None\<close> when the key is absent or
  null, otherwise a list whose entries are null or lists of integers and nulls), and whether
  the object has any other key. With neither it is the empty object, which Python takes as
  false.
\<close>

record date_obj =
  date_parts :: "int option list option list option"
  more_keys :: bool

text \<open>
  A Crossref work item, as far as \<^verbatim>\<open>scrape_pdfs.py\<close> reads it. Each field holds what
  \<^verbatim>\<open>item.get(key)\<close> yields, \<open>None\<close> when the key is absent or null; for the publisher,
  where the code gives a default, \<open>None\<close> is the absent key and \<open>Some None\<close> is null. Python
  strings are lists of characters, and so are byte strings.
\<close>

record item =
  DOI :: "string option"
  title :: "string list option"
  container_title :: "string list option"
  published_print :: "date_obj option"
  published_online :: "date_obj option"
  created :: "date_obj option"
  publisher :: "string option option"

text \<open>
  The parsed command line (\<^verbatim>\<open>args\<close>). \<^verbatim>\<open>--max\<close> is any Python integer; the pause is
  a sleep duration only and is left out.
\<close>

record args =
  keywords_arg :: string
  email :: string
  max_arg :: int
  outdir :: string
  start_date :: string
  end_date :: string
  filter_publishers :: bool

text \<open>The exceptions the model raises: \<^verbatim>\<open>ValueError\<close> (the worker pool's constructor),
  \<^verbatim>\<open>TypeError\<close> (iterating over \<^verbatim>\<open>None\<close>), \<^verbatim>\<open>FileNotFoundError\<close> (a file
  operation on a path that holds no file, a directory with the empty name) and any other
  \<^verbatim>\<open>OSError\<close> (a directory that cannot be created).\<close>

datatype py_error = ValueError | TypeError | FileNotFoundError | OSError

section \<open>Python strings\<close>

text \<open>Truthiness of an optional string (\<^verbatim>\<open>None\<close> and \<^verbatim>\<open>""\<close> are falsy), Python's
  \<^verbatim>\<open>a or b\<close> on such values, \<^verbatim>\<open>str\<close> of an integer and of an optional value,
  \<^verbatim>\<open>sep.join\<close>, \<^verbatim>\<open>s.endswith\<close> and \<^verbatim>\<open>s.lower\<close> (on the letters A to Z; the
  one test that uses it chooses between two branches that return the same value).\<close>

definition truthy :: "string option \<Rightarrow> bool" where
  "truthy x = (case x of None \<Rightarrow> False | Some s \<Rightarrow> s \<noteq> [])"

definition py_or :: "string option \<Rightarrow> string option \<Rightarrow> string option" where
  "py_or x y = (if truthy x then x else y)"

definition digit_char :: "nat \<Rightarrow> char" where
  "digit_char d = ''0123456789'' ! d"

fun str_nat :: "nat \<Rightarrow> string" where
  "str_nat n = (if n < 10 then [digit_char n] else str_nat (n div 10) @ [digit_char (n mod 10)])"

declare str_nat.simps [simp del]

definition str_int :: "int \<Rightarrow> string" where
  "str_int i = (if i < 0 then CHR ''-'' # str_nat (nat (- i)) else str_nat (nat i))"

definition str_date_part :: "int option \<Rightarrow> string" where
  "str_date_part x = (case x of None \<Rightarrow> ''None'' | Some i \<Rightarrow> str_int i)"

definition str_opt :: "string option \<Rightarrow> string" where
  "str_opt x = (case x of None \<Rightarrow> ''None'' | Some s \<Rightarrow> s)"

fun py_join :: "string \<Rightarrow> string list \<Rightarrow> string" where
  "py_join sep [] = []"
| "py_join sep [x] = x"
| "py_join sep (x # y # ys) = x @ sep @ py_join sep (y # ys)"

definition endswith :: "string \<Rightarrow> string \<Rightarrow> bool" where
  "endswith s suf = (length suf \<le> length s \<and> drop (length s - length suf) s = suf)"

definition lower_char :: "char \<Rightarrow> char" where
  "lower_char c =
     (case map_of (zip ''ABCDEFGHIJKLMNOPQRSTUVWXYZ'' ''abcdefghijklmnopqrstuvwxyz'') c of
        None \<Rightarrow> c
      | Some l \<Rightarrow> l)"

definition lower :: "string \<Rightarrow> string" where
  "lower s = map lower_char s"

section \<open>The OA resolver (\<^verbatim>\<open>get_pdf_url_from_unpaywall\<close>)\<close>

text \<open>
  The answer of Unpaywall for a DOI and an email: the lookup fails (any exception inside the
  \<^verbatim>\<open>try\<close> block: transport, HTTP status, JSON decoding), or it yields the parsed object.
  Of the object the code reads \<^verbatim>\<open>best_oa_location\<close> (absent, null and the empty object are
  all falsy: \<open>None\<close>) and \<^verbatim>\<open>oa_locations\<close> (\<open>None\<close> when the key is absent); of a
  location it reads \<^verbatim>\<open>url_for_pdf\<close> and \<^verbatim>\<open>url\<close>.
\<close>

record oa_location =
  url_for_pdf :: "string option"
  url :: "string option"

record unpaywall_data =
  best_oa_location :: "oa_location option"
  oa_locations :: "oa_location list option"

datatype unpaywall_response = LookupFailed | Json unpaywall_data

text \<open>What a streamed GET of a URL does: the request fails (any exception before the file is
  opened: transport error, error status, a \<^verbatim>\<open>content-length\<close> that \<^verbatim>\<open>int\<close> rejects), or the
  body arrives as a list of chunks, after which the iteration either ends or raises.\<close>

datatype http_response = RequestFailed | Streamed "string list" bool

text \<open>The outside world of one item: the answers of Unpaywall and of the web, and the paths
  that \<^verbatim>\<open>open(path, "wb")\<close> rejects (a name the file system refuses, a missing
  directory).\<close>

record env =
  unpaywall :: "string \<Rightarrow> string \<Rightarrow> unpaywall_response"
  http_get :: "string \<Rightarrow> http_response"
  open_fails :: "string \<Rightarrow> bool"

text \<open>The \<^verbatim>\<open>for loc in data.get("oa_locations", [])\<close> loop.\<close>

fun first_url :: "oa_location list \<Rightarrow> string option" where
  "first_url [] = None"
| "first_url (loc # locs) =
     (let pdf_url = py_or (url_for_pdf loc) (url loc)
      in if truthy pdf_url then pdf_url else first_url locs)"

definition get_pdf_url_from_unpaywall :: "env \<Rightarrow> string \<Rightarrow> string \<Rightarrow> string option" where
  "get_pdf_url_from_unpaywall w doi em =
     (case unpaywall w doi em of
        LookupFailed \<Rightarrow> None
      | Json data \<Rightarrow>
          (let others = first_url (case oa_locations data of None \<Rightarrow> [] | Some locs \<Rightarrow> locs)
           in case best_oa_location data of
                None \<Rightarrow> others
              | Some loc \<Rightarrow>
                  (let pdf_url = py_or (url_for_pdf loc) (url loc)
                   in if truthy pdf_url \<and> endswith (lower (str_opt pdf_url)) ''.pdf'' then pdf_url
                      else if truthy pdf_url then pdf_url
                      else others)))"

section \<open>File names and the file system\<close>

text \<open>The characters of the class \<^verbatim>\<open>[\\/*?:"<>|]\<close>.\<close>

definition hostile :: "char list" where
  "hostile = [CHR 0x5C, CHR ''/'', CHR ''*'', CHR ''?'', CHR '':'', CHR 0x22, CHR ''<'', CHR ''>'',
     CHR ''|'']"

definition sanitize_filename :: "string \<Rightarrow> string" where
  "sanitize_filename s = take 200 (map (\<lambda>c. if c \<in> set hostile then CHR ''_'' else c) s)"

text \<open>\<^verbatim>\<open>os.path.join\<close> of two components, as \<^verbatim>\<open>posixpath\<close> defines it.\<close>

definition os_path_join :: "string \<Rightarrow> string \<Rightarrow> string" where
  "os_path_join a b =
     (if b \<noteq> [] \<and> hd b = CHR ''/'' then b
      else if a = [] \<or> last a = CHR ''/'' then a @ b
      else a @ ''/'' @ b)"

text \<open>
  The file system is a map from paths to file contents (bytes, as characters). Reading,
  sizing or removing a path fails exactly when the path holds no file; removing a file that
  exists succeeds. Opening a path for writing creates or truncates the file, unless the
  world rejects the path. Directories are not part of the map; whether one can be created
  is a matter of the world (see \<open>os_makedirs\<close> below).
\<close>

type_synonym filesystem = "string \<rightharpoonup> string"

definition os_path_exists :: "filesystem \<Rightarrow> string \<Rightarrow> bool" where
  "os_path_exists fs p = (fs p \<noteq> None)"

definition os_remove :: "filesystem \<Rightarrow> string \<Rightarrow> py_error + filesystem" where
  "os_remove fs p = (case fs p of None \<Rightarrow> Inl FileNotFoundError | Some d \<Rightarrow> Inr (fs(p := None)))"

definition os_path_getsize :: "filesystem \<Rightarrow> string \<Rightarrow> py_error + nat" where
  "os_path_getsize fs p = (case fs p of None \<Rightarrow> Inl FileNotFoundError | Some d \<Rightarrow> Inr (length d))"

text \<open>\<^verbatim>\<open>try: os.remove(dest_path)  except: pass\<close>.\<close>

definition try_remove :: "filesystem \<Rightarrow> string \<Rightarrow> filesystem" where
  "try_remove fs p = (case os_remove fs p of Inl e \<Rightarrow> fs | Inr fs' \<Rightarrow> fs')"

section \<open>Fetch and validate (\<^verbatim>\<open>download_file\<close>, \<^verbatim>\<open>is_valid_pdf\<close>)\<close>

text \<open>The loop over \<^verbatim>\<open>r.iter_content\<close>: the bytes written so far and
  \<^verbatim>\<open>downloaded_size\<close>; an empty chunk is skipped.\<close>

fun iter_content :: "string list \<Rightarrow> string \<times> nat \<Rightarrow> string \<times> nat" where
  "iter_content [] st = st"
| "iter_content (chunk # chunks) (f, downloaded_size) =
     iter_content chunks
       (if chunk \<noteq> [] then (f @ chunk, downloaded_size + length chunk) else (f, downloaded_size))"

text \<open>The \<^verbatim>\<open>except\<close> branch of \<^verbatim>\<open>download_file\<close>: remove the file if it exists.\<close>

definition download_failed :: "filesystem \<Rightarrow> string \<Rightarrow> filesystem \<times> bool" where
  "download_failed fs dest_path =
     ((if os_path_exists fs dest_path then try_remove fs dest_path else fs), False)"

definition download_file :: "env \<Rightarrow> filesystem \<Rightarrow> string \<Rightarrow> string \<Rightarrow> filesystem \<times> bool" where
  "download_file w fs u dest_path =
     (case http_get w u of
        RequestFailed \<Rightarrow> download_failed fs dest_path
      | Streamed chunks broken \<Rightarrow>
          if open_fails w dest_path then download_failed fs dest_path
          else
            (case iter_content chunks ([], 0) of
               (f, downloaded_size) \<Rightarrow>
                 (let fs1 = fs(dest_path \<mapsto> f)
                  in if broken then download_failed fs1 dest_path
                     else if downloaded_size < 1024 then download_failed fs1 dest_path
                     else (fs1, True))))"

definition is_valid_pdf :: "filesystem \<Rightarrow> string \<Rightarrow> bool" where
  "is_valid_pdf fs file_path = (case fs file_path of None \<Rightarrow> False | Some d \<Rightarrow> take 4 d = ''%PDF'')"

section \<open>The item pipeline (\<^verbatim>\<open>process_item\<close>)\<close>

definition PREFERRED_PUBLISHERS :: "string list" where
  "PREFERRED_PUBLISHERS = [''Springer'', ''IEEE'', ''Scopus'', ''Elsevier'']"

text \<open>\<^verbatim>\<open>publisher in PREFERRED_PUBLISHERS\<close>, for a publisher that is a string or
  \<^verbatim>\<open>None\<close>.\<close>

definition in_preferred :: "string option \<Rightarrow> bool" where
  "in_preferred x = (case x of None \<Rightarrow> False | Some p \<Rightarrow> p \<in> set PREFERRED_PUBLISHERS)"

text \<open>The local variables \<^verbatim>\<open>title\<close>, \<^verbatim>\<open>journal\<close>, \<^verbatim>\<open>pub_date_parts\<close> (the first
  of the three date objects that Python takes as true, else the last) and \<^verbatim>\<open>pub_date\<close>.
  Joining the parts raises \<^verbatim>\<open>TypeError\<close> when the first entry of \<^verbatim>\<open>date-parts\<close> is
  null.\<close>

definition first_or_empty :: "string list option \<Rightarrow> string" where
  "first_or_empty x = (case x of Some (t # ts) \<Rightarrow> t | _ \<Rightarrow> [])"

definition truthy_obj :: "date_obj option \<Rightarrow> bool" where
  "truthy_obj x = (case x of None \<Rightarrow> False | Some d \<Rightarrow> date_parts d \<noteq> None \<or> more_keys d)"

definition pub_date_parts_of :: "item \<Rightarrow> date_obj option" where
  "pub_date_parts_of it =
     (if truthy_obj (published_print it) then published_print it
      else if truthy_obj (published_online it) then published_online it
      else created it)"

definition pub_date_of :: "item \<Rightarrow> py_error + string" where
  "pub_date_of it =
     (let pub_date_parts = pub_date_parts_of it
      in if truthy_obj pub_date_parts then
           (case pub_date_parts of
              Some d \<Rightarrow>
                (case date_parts d of
                   Some (dp # rest) \<Rightarrow>
                     (case dp of None \<Rightarrow> Inl TypeError
                      | Some xs \<Rightarrow> Inr (py_join ''-'' (map str_date_part xs)))
                 | _ \<Rightarrow> Inr ''unknown'')
            | None \<Rightarrow> Inr ''unknown'')
         else Inr ''unknown'')"

text \<open>The name before sanitizing, \<^verbatim>\<open>f"{pub_date} - {journal} - {title}.pdf"\<close>.\<close>

definition raw_filename :: "string \<Rightarrow> string \<Rightarrow> string \<Rightarrow> string" where
  "raw_filename pub_date journal title_str =
     pub_date @ '' - '' @ journal @ '' - '' @ title_str @ ''.pdf''"

definition str_error :: "py_error \<Rightarrow> string" where
  "str_error e =
     (case e of
        ValueError \<Rightarrow> ''max_workers must be greater than 0''
      | TypeError \<Rightarrow> [CHR 0x27] @ ''NoneType'' @ [CHR 0x27] @ '' object is not iterable''
      | FileNotFoundError \<Rightarrow> ''[Errno 2] No such file or directory''
      | OSError \<Rightarrow> ''[Errno 13] Permission denied'')"

text \<open>Lines 188 to 211: the download and the checks on the downloaded file.\<close>

definition download_and_check ::
  "env \<Rightarrow> filesystem \<Rightarrow> string \<Rightarrow> string \<Rightarrow> filesystem \<times> (py_error + bool \<times> string)" where
  "download_and_check w fs pdf_url dest_path =
     (case download_file w fs pdf_url dest_path of
        (fs1, success) \<Rightarrow>
          if success \<and> os_path_exists fs1 dest_path then
            if \<not> is_valid_pdf fs1 dest_path
            then (try_remove fs1 dest_path,
                  Inr (False, ''Downloaded file is not a valid PDF from: '' @ pdf_url))
            else
              (case os_path_getsize fs1 dest_path of
                 Inl e \<Rightarrow> (fs1, Inl e)
               | Inr file_size \<Rightarrow>
                   if file_size < 1024
                   then (try_remove fs1 dest_path,
                         Inr (False, ''Downloaded file is too small from: '' @ pdf_url))
                   else (fs1, Inr (True, ''Saved: '' @ dest_path)))
          else if success
          then (fs1, Inr (False, ''Download completed but file not found: '' @ pdf_url))
          else (fs1, Inr (False, ''Failed to download PDF from: '' @ pdf_url)))"

text \<open>The body of the \<^verbatim>\<open>try\<close> block of \<^verbatim>\<open>process_item\<close>; \<open>Inl\<close> is an exception
  that leaves the block.\<close>

definition process_item_body ::
  "env \<Rightarrow> filesystem \<Rightarrow> item \<Rightarrow> string \<Rightarrow> string \<Rightarrow> args \<Rightarrow> filesystem \<times> (py_error + bool \<times> string)" where
  "process_item_body w fs it em od a =
     (let doi = DOI it;
          title_str = first_or_empty (title it);
          journal = first_or_empty (container_title it)
      in case pub_date_of it of
           Inl e \<Rightarrow> (fs, Inl e)
         | Inr pub_date \<Rightarrow>
             (let publisher_name = (case publisher it of None \<Rightarrow> Some [] | Some p \<Rightarrow> p)
              in if filter_publishers a \<and> \<not> in_preferred publisher_name
                 then (fs, Inr (False, ''Skipping '' @ str_opt doi @ '' - Publisher '' @
                         str_opt publisher_name @ '' not in preferred list''))
                 else if \<not> truthy doi then (fs, Inr (False, ''No DOI found''))
                 else
                   (let pdf_url = get_pdf_url_from_unpaywall w (str_opt doi) em
                    in if \<not> truthy pdf_url
                       then (fs, Inr (False, ''No OA PDF reported by Unpaywall for DOI: '' @
                               str_opt doi))
                       else
                         (let fn = sanitize_filename (raw_filename pub_date journal title_str);
                              dest_path = os_path_join od fn
                          in download_and_check w fs (str_opt pdf_url) dest_path))))"

text \<open>\<^verbatim>\<open>process_item\<close>: the body, with \<^verbatim>\<open>except Exception as e\<close> around it.\<close>

definition process_item ::
  "env \<Rightarrow> filesystem \<Rightarrow> item \<Rightarrow> string \<Rightarrow> string \<Rightarrow> args \<Rightarrow> filesystem \<times> (py_error + bool \<times> string)" where
  "process_item w fs it em od a =
     (case process_item_body w fs it em od a of
        (fs', Inl e) \<Rightarrow> (fs', Inr (False, ''Error processing item: '' @ str_error e))
      | (fs', Inr r) \<Rightarrow> (fs', Inr r))"

section \<open>The acquisition scheduler (\<^verbatim>\<open>main\<close>)\<close>

text \<open>
  What \<^verbatim>\<open>future.result(timeout=120)\<close> does for one submitted item: it returns the pair
  of \<^verbatim>\<open>process_item\<close>, raises a timeout, or raises another exception. A future carries the
  number of its submission, which keeps two futures apart as object identity does in Python.
\<close>

datatype future_result = Returned bool string | TimedOut | Raised string

record future =
  fid :: int
  fresult :: future_result

text \<open>
  The request \<^verbatim>\<open>query_crossref\<close> sends, and the outside world of one run: the answer
  of Crossref to a request (\<open>None\<close> when the request fails or the response is falsy, otherwise
  the list under \<^verbatim>\<open>message.items\<close>, empty when absent), the outcome of the item
  pipeline for the n-th submission, and the error, if any, of creating a directory.
\<close>

record search_request =
  sr_query :: string
  sr_start_date :: string
  sr_end_date :: string
  sr_rows :: int
  sr_offset :: int
  sr_filter_publishers :: bool

record world =
  crossref :: "search_request \<Rightarrow> item list option"
  run_item :: "int \<Rightarrow> item \<Rightarrow> future_result"
  makedirs_error :: "string \<Rightarrow> py_error option"

text \<open>\<^verbatim>\<open>os.makedirs(name, exist_ok=True)\<close>: the empty name raises
  \<^verbatim>\<open>FileNotFoundError\<close> on every system; any other name raises what the world reports for
  it (no permission, a file in the way), or the directory is there afterwards.\<close>

definition os_makedirs :: "world \<Rightarrow> string \<Rightarrow> py_error + unit" where
  "os_makedirs w name =
     (if name = [] then Inl FileNotFoundError
      else (case makedirs_error w name of Some e \<Rightarrow> Inl e | None \<Rightarrow> Inr ()))"

definition query_crossref :: "world \<Rightarrow> string \<Rightarrow> string \<Rightarrow> string \<Rightarrow> int \<Rightarrow> int \<Rightarrow> bool \<Rightarrow> item list option" where
  "query_crossref w query sd ed rows off fp =
     crossref w \<lparr>sr_query = query, sr_start_date = sd, sr_end_date = ed, sr_rows = rows,
       sr_offset = off, sr_filter_publishers = fp\<rparr>"

text \<open>
  The local variables of \<^verbatim>\<open>main\<close>, together with two logs that the code does not keep:
  \<open>searches\<close> records, for each search request, the value of \<open>attempts\<close> and of
  \<open>offset\<close> when it was issued; \<open>submitted\<close> records each item handed to
  \<^verbatim>\<open>executor.submit\<close>, in order.
\<close>

record sched =
  offset :: int
  downloaded :: int
  seen_dois :: "string set"
  attempts :: int
  futures :: "(future \<times> string) list"
  searches :: "(int \<times> int) list"
  submitted :: "item list"

definition per_page :: int where
  "per_page = 20"

text \<open>The \<^verbatim>\<open>for item in items\<close> loop: \<^verbatim>\<open>break\<close> once enough futures are pending,
  \<^verbatim>\<open>continue\<close> on a missing, empty or seen DOI, submit otherwise.\<close>

fun submit_items :: "world \<Rightarrow> args \<Rightarrow> item list \<Rightarrow> sched \<Rightarrow> sched" where
  "submit_items w a [] s = s"
| "submit_items w a (it # its) s =
     (if int (length (futures s)) \<ge> max_arg a - downloaded s + 10 then s
      else (case DOI it of
              None \<Rightarrow> submit_items w a its s
            | Some doi \<Rightarrow>
                if doi = [] \<or> doi \<in> seen_dois s then submit_items w a its s
                else submit_items w a its
                  (s\<lparr>seen_dois := insert doi (seen_dois s),
                     attempts := attempts s + 1,
                     futures := futures s @ [(\<lparr>fid = attempts s + 1,
                        fresult = run_item w (attempts s + 1) it\<rparr>, doi)],
                     submitted := submitted s @ [it]\<rparr>)))"

text \<open>One pass of the body of \<^verbatim>\<open>for future, doi in list(futures)\<close>: the future is
  removed from \<open>futures\<close> on every path, and a returned success is counted.\<close>

definition complete_one :: "future \<times> string \<Rightarrow> sched \<Rightarrow> sched" where
  "complete_one fd s =
     (case fresult (fst fd) of
        Returned success message \<Rightarrow>
          s\<lparr>downloaded := (if success then downloaded s + 1 else downloaded s),
            futures := remove1 fd (futures s)\<rparr>
      | TimedOut \<Rightarrow> s\<lparr>futures := remove1 fd (futures s)\<rparr>
      | Raised e \<Rightarrow> s\<lparr>futures := remove1 fd (futures s)\<rparr>)"

text \<open>The loop over the copy \<^verbatim>\<open>list(futures)\<close>, left by \<^verbatim>\<open>break\<close> as soon as
  \<open>downloaded \<ge> args.max\<close>.\<close>

fun process_completed :: "args \<Rightarrow> (future \<times> string) list \<Rightarrow> sched \<Rightarrow> sched" where
  "process_completed a [] s = s"
| "process_completed a (fd # fds) s =
     (let s1 = complete_one fd s
      in if downloaded s1 \<ge> max_arg a then s1 else process_completed a fds s1)"

lemma offset_submit_items [simp]: "offset (submit_items w a its s) = offset s"
  by (induction its arbitrary: s) (auto split: option.splits)

lemma offset_complete_one [simp]: "offset (complete_one fd s) = offset s"
  by (simp add: complete_one_def split: future_result.splits)

lemma offset_process_completed [simp]: "offset (process_completed a fds s) = offset s"
  by (induction fds arbitrary: s) (auto simp: Let_def)

text \<open>The condition of the \<^verbatim>\<open>while\<close> loop, with \<open>max_attempts = args.max * 3\<close>.\<close>

definition loop_cond :: "args \<Rightarrow> sched \<Rightarrow> bool" where
  "loop_cond a s =
     (downloaded s < max_arg a \<and> attempts s < max_arg a * 3 \<and> offset s < max_arg a * 3 * 5)"

text \<open>The \<^verbatim>\<open>while\<close> loop. Each round issues one search request; a failed request or an
  empty page leaves the loop. The offset grows by the page size in every round that goes on,
  which is what bounds the loop.\<close>

function main_loop :: "world \<Rightarrow> args \<Rightarrow> sched \<Rightarrow> sched" where
  "main_loop w a s =
     (if loop_cond a s
      then
        (let s0 = s\<lparr>searches := searches s @ [(attempts s, offset s)]\<rparr>
         in case query_crossref w (keywords_arg a) (start_date a) (end_date a) per_page (offset s)
                   (filter_publishers a) of
              None \<Rightarrow> s0
            | Some items \<Rightarrow>
                if items = [] then s0
                else
                  (let s1 = submit_items w a items s0;
                       s2 = s1\<lparr>offset := offset s1 + per_page\<rparr>
                   in main_loop w a (process_completed a (futures s2) s2)))
      else s)"
  by pat_completeness auto
termination
  by (relation "measure (\<lambda>(w, a, s). nat (max_arg a * 3 * 5 - offset s))")
     (auto simp: per_page_def loop_cond_def)

declare main_loop.simps [simp del]

text \<open>The loop after the pool's \<^verbatim>\<open>while\<close>: every remaining future is awaited and each
  returned success is counted.\<close>

fun drain :: "(future \<times> string) list \<Rightarrow> int \<Rightarrow> int" where
  "drain [] d = d"
| "drain ((f, doi) # fds) d =
     drain fds (case fresult f of Returned success message \<Rightarrow> (if success then d + 1 else d)
                | TimedOut \<Rightarrow> d | Raised e \<Rightarrow> d)"

text \<open>\<^verbatim>\<open>ThreadPoolExecutor(max_workers=n)\<close> of the Python standard library raises
  \<^verbatim>\<open>ValueError\<close> when \<open>n \<le> 0\<close>; otherwise a pool of n workers is made.\<close>

definition ThreadPoolExecutor :: "int \<Rightarrow> py_error + int" where
  "ThreadPoolExecutor max_workers = (if max_workers \<le> 0 then Inl ValueError else Inr max_workers)"

text \<open>What a call of \<^verbatim>\<open>main\<close> does: it returns early on a bad email, raises (when the
  output directory cannot be created, or when the pool cannot be built), or finishes and
  prints the summary with the final count, followed by the warning when the count is short.
  The printed progress lines and the pauses are left out.\<close>

datatype main_return =
    InvalidEmail
  | Finished (reported: int) (warning: bool)

record run =
  outcome :: "py_error + main_return"
  final :: sched

definition init_sched :: sched where
  "init_sched = \<lparr>offset = 0, downloaded = 0, seen_dois = {}, attempts = 0, futures = [],
     searches = [], submitted = []\<rparr>"

definition main :: "world \<Rightarrow> args \<Rightarrow> run" where
  "main w a =
     (if email a = [] \<or> CHR ''@'' \<notin> set (email a)
      then \<lparr>outcome = Inr InvalidEmail, final = init_sched\<rparr>
      else
        (case os_makedirs w (outdir a) of
           Inl e \<Rightarrow> \<lparr>outcome = Inl e, final = init_sched\<rparr>
         | Inr made \<Rightarrow>
             (case ThreadPoolExecutor (min (max_arg a) 5) of
                Inl e \<Rightarrow> \<lparr>outcome = Inl e, final = init_sched\<rparr>
              | Inr pool \<Rightarrow>
                  (let s = main_loop w a init_sched;
                       d = drain (futures s) (downloaded s)
                   in \<lparr>outcome = Inr (Finished d (d < max_arg a)),
                         final = s\<lparr>downloaded := d\<rparr>\<rparr>))))"

section \<open>Topic fan-out (\<^verbatim>\<open>app.py\<close>)\<close>

text \<open>\<^verbatim>\<open>run_scraper\<close>: the target handed to every topic, from the requested total and the
  number of topics.\<close>

definition max_pdfs_per_topic :: "int \<Rightarrow> nat \<Rightarrow> int" where
  "max_pdfs_per_topic max_pdfs len_topics =
     (let num_topics = (if int len_topics = 0 then 1 else int len_topics)
      in max 5 (max_pdfs div num_topics))"

text \<open>\<^verbatim>\<open>process_topics_and_scrape\<close>: the files of a topic directory that are counted, and
  their number; \<^verbatim>\<open>run_scraper\<close>: the files of a topic directory that are moved into the
  job's directory.\<close>

definition pdf_files :: "string list \<Rightarrow> string list" where
  "pdf_files listdir = [f \<leftarrow> listdir. endswith f ''.pdf'']"

definition pdf_count :: "string list \<Rightarrow> nat" where
  "pdf_count listdir = length (pdf_files listdir)"

definition moved_files :: "string list \<Rightarrow> string list" where
  "moved_files listdir = [f \<leftarrow> listdir. endswith f ''.pdf'']"

section \<open>Definitions for the proofs\<close>

text \<open>Two pieces of one round of the loop, named for the proofs: logging the search request,
  and the rest of the round on a non-empty page.\<close>

definition log_search :: "sched \<Rightarrow> sched" where
  "log_search s = s\<lparr>searches := searches s @ [(attempts s, offset s)]\<rparr>"

definition page_round :: "world \<Rightarrow> args \<Rightarrow> item list \<Rightarrow> sched \<Rightarrow> sched" where
  "page_round w a items s0 =
     (let s1 = submit_items w a items s0;
          s2 = s1\<lparr>offset := offset s1 + per_page\<rparr>
      in process_completed a (futures s2) s2)"


text \<open>Predicates on the scheduler state that every round keeps. \<open>dedup_inv\<close>: the submitted
  items have pairwise different, non-empty DOIs, all of them in \<open>seen_dois\<close>.
  \<open>search_inv\<close>: the i-th search request was issued with fewer than \<open>3 * max\<close> attempts and
  at offset \<open>20 * i\<close>, below \<open>15 * max\<close>.\<close>

definition dedup_inv :: "sched \<Rightarrow> bool" where
  "dedup_inv s = (distinct (map DOI (submitted s)) \<and>
     (\<forall>it \<in> set (submitted s). \<exists>d. DOI it = Some d \<and> d \<noteq> [] \<and> d \<in> seen_dois s))"

definition search_inv :: "args \<Rightarrow> sched \<Rightarrow> bool" where
  "search_inv a s =
     (\<forall>i < length (searches s).
        fst (searches s ! i) < max_arg a * 3 \<and>
        snd (searches s ! i) = per_page * int i \<and>
        snd (searches s ! i) < max_arg a * 3 * 5)"

definition search_cont :: "args \<Rightarrow> sched \<Rightarrow> bool" where
  "search_cont a s = (search_inv a s \<and> offset s = per_page * int (length (searches s)))"

text \<open>\<open>pending_inv\<close>: the count is at most the request, futures are pending only once the
  request is met, and the count and the pending futures together exceed the request by at
  most the buffer of 10.\<close>

definition pending_inv :: "args \<Rightarrow> sched \<Rightarrow> bool" where
  "pending_inv a s =
     (downloaded s \<le> max_arg a \<and>
      (downloaded s < max_arg a \<longrightarrow> futures s = []) \<and>
      downloaded s + int (length (futures s)) \<le> max_arg a + 10)"

text \<open>A location has a URL to offer.\<close>

definition has_url :: "oa_location \<Rightarrow> bool" where
  "has_url loc = (truthy (url_for_pdf loc) \<or> truthy (url loc))"

section \<open>Example inputs\<close>

text \<open>An item that has only a DOI (or none), a command line asking for \<open>n\<close> PDFs, a world whose
  first page holds two items that both succeed, one whose first page holds five, and a world
  of three pages with repeated, missing and empty DOIs, one success and a timeout, in which
  one directory cannot be created.\<close>

definition mk_item :: "string option \<Rightarrow> item" where
  "mk_item d = \<lparr>DOI = d, title = None, container_title = None, published_print = None,
     published_online = None, created = None, publisher = None\<rparr>"

definition example_args :: "int \<Rightarrow> args" where
  "example_args n = \<lparr>keywords_arg = ''cnn'', email = ''a@b.c'', max_arg = n, outdir = ''out'',
     start_date = ''2024-01-01'', end_date = ''2025-12-31'', filter_publishers = False\<rparr>"

definition overshoot_world :: world where
  "overshoot_world =
     \<lparr>crossref = (\<lambda>r. if sr_offset r = 0
                        then Some [mk_item (Some ''10.1/a''), mk_item (Some ''10.1/b'')]
                        else Some []),
      run_item = (\<lambda>n it. Returned True ''Saved''),
      makedirs_error = (\<lambda>name. None)\<rparr>"

definition five_world :: world where
  "five_world =
     \<lparr>crossref = (\<lambda>r. if sr_offset r = 0
                        then Some [mk_item (Some ''10.1/a''), mk_item (Some ''10.1/b''),
                                   mk_item (Some ''10.1/c''), mk_item (Some ''10.1/d''),
                                   mk_item (Some ''10.1/e'')]
                        else Some []),
      run_item = (\<lambda>n it. Returned True ''Saved''),
      makedirs_error = (\<lambda>name. None)\<rparr>"

definition paged_world :: world where
  "paged_world =
     \<lparr>crossref = (\<lambda>r.
         if sr_offset r = 0
         then Some [mk_item (Some ''10.1/a''), mk_item (Some ''10.1/a''), mk_item None,
                    mk_item (Some ''''), mk_item (Some ''10.1/b'')]
         else if sr_offset r = 20
         then Some [mk_item (Some ''10.1/b''), mk_item (Some ''10.1/c''), mk_item (Some ''10.1/d'')]
         else Some [mk_item (Some ''10.1/e'')]),
      run_item = (\<lambda>n it. if DOI it = Some ''10.1/c'' then Returned True ''Saved''
                          else if DOI it = Some ''10.1/a'' then TimedOut
                          else Returned False ''No OA PDF''),
      makedirs_error = (\<lambda>name. if name = ''/proc/out'' then Some OSError else None)\<rparr>"

text \<open>A file of 1024 bytes that starts with the PDF signature, and a page of HTML. A world in
  which Unpaywall knows four DOIs (a best location with both URLs; a best location with a
  generic URL only; a best location without a usable URL and three other locations; no
  location at all) and fails on every other; the URLs serve a valid PDF in three chunks, an
  HTML page, a file of 600 bytes, and a stream that breaks; any other URL fails. One path
  cannot be opened for writing.\<close>

definition pdf_bytes :: string where
  "pdf_bytes = ''%PDF'' @ replicate 1020 (CHR ''x'')"

definition html_bytes :: string where
  "html_bytes = ''<html>'' @ replicate 2000 (CHR ''x'')"

definition example_env :: env where
  "example_env =
     \<lparr>unpaywall = (\<lambda>doi em.
         if doi = ''10.1/ok''
         then Json \<lparr>best_oa_location = Some \<lparr>url_for_pdf = Some ''http://h/a.pdf'', url = Some ''http://h/a''\<rparr>,
                     oa_locations = Some []\<rparr>
         else if doi = ''10.1/page''
         then Json \<lparr>best_oa_location = Some \<lparr>url_for_pdf = None, url = Some ''http://h/page''\<rparr>,
                     oa_locations = None\<rparr>
         else if doi = ''10.1/other''
         then Json \<lparr>best_oa_location = Some \<lparr>url_for_pdf = Some '''', url = None\<rparr>,
                     oa_locations = Some [\<lparr>url_for_pdf = None, url = None\<rparr>,
                                          \<lparr>url_for_pdf = None, url = Some ''http://h/small''\<rparr>,
                                          \<lparr>url_for_pdf = Some ''http://h/a.pdf'', url = None\<rparr>]\<rparr>
         else if doi = ''10.1/closed''
         then Json \<lparr>best_oa_location = None, oa_locations = Some []\<rparr>
         else LookupFailed),
      http_get = (\<lambda>u.
         if u = ''http://h/a.pdf'' then Streamed [''%PDF'', [], replicate 1020 (CHR ''x'')] False
         else if u = ''http://h/page'' then Streamed [html_bytes] False
         else if u = ''http://h/small'' then Streamed [''%PDF'' @ replicate 596 (CHR ''x'')] False
         else if u = ''http://h/cut'' then Streamed [pdf_bytes] True
         else RequestFailed),
      open_fails = (\<lambda>p. p = ''out/nul'')\<rparr>"

definition example_item :: "string \<Rightarrow> item" where
  "example_item d = \<lparr>DOI = Some d, title = Some [''T: a/b''], container_title = Some [''J''],
     published_print = Some \<lparr>date_parts = None, more_keys = False\<rparr>,
     published_online = Some \<lparr>date_parts = Some [Some [Some 2024, Some 5]], more_keys = False\<rparr>,
     created = Some \<lparr>date_parts = Some [Some [Some 2023]], more_keys = True\<rparr>,
     publisher = Some (Some ''Elsevier'')\<rparr>"

definition null_date_item :: item where
  "null_date_item = \<lparr>DOI = Some ''10.1/ok'', title = Some [''T''], container_title = None,
     published_print = Some \<lparr>date_parts = Some [None], more_keys = False\<rparr>,
     published_online = None, created = None, publisher = Some None\<rparr>"

text \<open>Works whose names before sanitizing are longer than 200 characters: a title of 200
  letters, and a title of 183 letters followed by \<^verbatim>\<open>.pdf\<close>.\<close>

definition long_title_item :: item where
  "long_title_item = \<lparr>DOI = Some ''10.1/ok'', title = Some [replicate 200 (CHR ''a'')],
     container_title = None, published_print = None, published_online = None,
     created = None, publisher = None\<rparr>"

definition pdf_title_item :: item where
  "pdf_title_item = \<lparr>DOI = Some ''10.1/ok'', title = Some [replicate 183 (CHR ''a'') @ ''.pdf''],
     container_title = None, published_print = None, published_online = None,
     created = None, publisher = None\<rparr>"

section \<open>Properties of the item pipeline\<close>

lemmas pipeline_simps = process_item_def process_item_body_def download_and_check_def
  download_file_def download_failed_def try_remove_def os_remove_def os_path_exists_def
  os_path_getsize_def is_valid_pdf_def get_pdf_url_from_unpaywall_def py_or_def truthy_def
  str_opt_def endswith_def lower_def lower_char_def pub_date_of_def pub_date_parts_of_def truthy_obj_def
  in_preferred_def
  first_or_empty_def raw_filename_def sanitize_filename_def hostile_def os_path_join_def
  PREFERRED_PUBLISHERS_def str_error_def str_date_part_def str_int_def str_nat.simps
  digit_char_def Let_def

lemma iter_content_concat:
  "iter_content chunks (f, n) = (f @ concat chunks, n + length (concat chunks))"
  by (induction chunks arbitrary: f n) auto

lemma try_remove_eq: "try_remove fs p = fs(p := None)"
  by (auto simp: try_remove_def os_remove_def split: option.splits)

lemma download_failed_eq: "download_failed fs p = (fs(p := None), False)"
  by (auto simp: download_failed_def os_path_exists_def try_remove_eq)

lemma download_file_True:
  assumes "download_file w fs u d = (fs', True)"
  shows "\<exists>chunks. http_get w u = Streamed chunks False \<and> \<not> open_fails w d \<and>
           1024 \<le> length (concat chunks) \<and> fs' = fs(d \<mapsto> concat chunks)"
proof (cases "http_get w u")
  case RequestFailed
  with assms show ?thesis by (simp add: download_file_def download_failed_eq)
next
  case (Streamed chunks broken)
  with assms show ?thesis
    by (simp add: download_file_def download_failed_eq iter_content_concat Let_def
        split: if_splits)
qed

lemma download_file_False:
  assumes "download_file w fs u d = (fs', False)"
  shows "fs' = fs(d := None)"
proof (cases "http_get w u")
  case RequestFailed
  with assms show ?thesis by (simp add: download_file_def download_failed_eq)
next
  case (Streamed chunks broken)
  with assms show ?thesis
    by (auto simp: download_file_def download_failed_eq iter_content_concat Let_def
        split: if_splits)
qed

lemma download_and_check_cases:
  assumes "download_and_check w fs u d = (fs', r)"
  shows "(\<exists>chunks. http_get w u = Streamed chunks False \<and> 1024 \<le> length (concat chunks) \<and>
            take 4 (concat chunks) = ''%PDF'' \<and> fs' = fs(d \<mapsto> concat chunks) \<and>
            r = Inr (True, ''Saved: '' @ d))
         \<or> (\<exists>msg. r = Inr (False, msg) \<and> msg \<noteq> [] \<and> fs' = fs(d := None))"
proof (cases "download_file w fs u d")
  case (Pair fs1 success)
  show ?thesis
  proof (cases success)
    case False
    with Pair have "fs1 = fs(d := None)" by (simp add: download_file_False)
    with Pair False assms show ?thesis
      by (auto simp: download_and_check_def)
  next
    case True
    with Pair have "download_file w fs u d = (fs1, True)" by simp
    then obtain chunks where c: "http_get w u = Streamed chunks False"
      "1024 \<le> length (concat chunks)" "fs1 = fs(d \<mapsto> concat chunks)"
      using download_file_True by blast
    show ?thesis
    proof (cases "take 4 (concat chunks) = ''%PDF''")
      case valid: True
      with Pair True c assms show ?thesis
        by (auto simp: download_and_check_def os_path_exists_def is_valid_pdf_def
            os_path_getsize_def)
    next
      case False
      with Pair True c assms show ?thesis
        by (auto simp: download_and_check_def os_path_exists_def is_valid_pdf_def
            try_remove_eq)
    qed
  qed
qed

lemma truthy_Some: "truthy x \<Longrightarrow> \<exists>s. x = Some s \<and> s \<noteq> []"
  by (cases x) (auto simp: truthy_def)

text \<open>What the body of \<open>process_item\<close> yields.\<close>

lemma process_item_body_cases:
  assumes "process_item_body w fs it em od a = (fs', r)"
  shows "(\<exists>e. r = Inl e \<and> pub_date_of it = Inl e \<and> fs' = fs)
       \<or> (\<exists>msg. r = Inr (False, msg) \<and> msg \<noteq> [] \<and> fs' = fs)
       \<or> (\<exists>pub_date u. pub_date_of it = Inr pub_date \<and>
             get_pdf_url_from_unpaywall w (str_opt (DOI it)) em = Some u \<and> u \<noteq> [] \<and>
             download_and_check w fs u
               (os_path_join od (sanitize_filename
                  (raw_filename pub_date (first_or_empty (container_title it))
                     (first_or_empty (title it))))) = (fs', r))"
proof (cases "pub_date_of it")
  case (Inl e)
  with assms show ?thesis by (simp add: process_item_body_def Let_def)
next
  case (Inr pub_date)
  show ?thesis
  proof (cases "filter_publishers a \<and>
      \<not> in_preferred (case publisher it of None \<Rightarrow> Some [] | Some p \<Rightarrow> p)")
    case True
    with Inr assms show ?thesis by (auto simp: process_item_body_def Let_def)
  next
    case pub_ok: False
    show ?thesis
    proof (cases "truthy (DOI it)")
      case False
      with Inr pub_ok assms show ?thesis by (auto simp: process_item_body_def Let_def)
    next
      case doi_ok: True
      show ?thesis
      proof (cases "truthy (get_pdf_url_from_unpaywall w (str_opt (DOI it)) em)")
        case False
        with Inr pub_ok doi_ok assms show ?thesis by (auto simp: process_item_body_def Let_def)
      next
        case True
        then obtain u where u: "get_pdf_url_from_unpaywall w (str_opt (DOI it)) em = Some u" "u \<noteq> []"
          using truthy_Some by blast
        with True Inr pub_ok doi_ok assms show ?thesis
          by (auto simp: process_item_body_def Let_def str_opt_def)
      qed
    qed
  qed
qed

lemma process_item_result:
  assumes "process_item w fs it em od a = (fs', r)"
  shows "(\<exists>e. process_item_body w fs it em od a = (fs', Inl e) \<and>
              r = Inr (False, ''Error processing item: '' @ str_error e))
       \<or> (process_item_body w fs it em od a = (fs', r) \<and> (\<exists>p. r = Inr p))"
proof (cases "process_item_body w fs it em od a")
  case (Pair fs1 r1)
  with assms show ?thesis by (cases r1) (auto simp: process_item_def)
qed

lemma process_item_True:
  assumes "process_item w fs it em od a = (fs', Inr (True, msg))"
  shows "\<exists>pub_date u chunks.
           pub_date_of it = Inr pub_date \<and>
           get_pdf_url_from_unpaywall w (str_opt (DOI it)) em = Some u \<and>
           http_get w u = Streamed chunks False \<and> 1024 \<le> length (concat chunks) \<and>
           take 4 (concat chunks) = ''%PDF'' \<and>
           fs' = fs(os_path_join od (sanitize_filename
                  (raw_filename pub_date (first_or_empty (container_title it))
                     (first_or_empty (title it)))) \<mapsto> concat chunks) \<and>
           msg = ''Saved: '' @ os_path_join od (sanitize_filename
                  (raw_filename pub_date (first_or_empty (container_title it))
                     (first_or_empty (title it))))"
proof -
  from process_item_result [OF assms]
  have b: "process_item_body w fs it em od a = (fs', Inr (True, msg))" by auto
  from process_item_body_cases [OF b]
  obtain pub_date u where u: "pub_date_of it = Inr pub_date"
    "get_pdf_url_from_unpaywall w (str_opt (DOI it)) em = Some u"
    "download_and_check w fs u
               (os_path_join od (sanitize_filename
                  (raw_filename pub_date (first_or_empty (container_title it))
                     (first_or_empty (title it))))) = (fs', Inr (True, msg))"
    by auto
  from download_and_check_cases [OF u(3)] u(1,2) show ?thesis by auto
qed

lemma process_item_False:
  assumes "process_item w fs it em od a = (fs', Inr (False, msg))"
  shows "fs' = fs \<or> (\<exists>dest_path. fs' = fs(dest_path := None))"
proof -
  from process_item_result [OF assms]
  obtain r where b: "process_item_body w fs it em od a = (fs', r)" by blast
  from process_item_body_cases [OF b] show ?thesis
  proof (elim disjE exE conjE)
    fix pub_date u
    assume "download_and_check w fs u
               (os_path_join od (sanitize_filename
                  (raw_filename pub_date (first_or_empty (container_title it))
                     (first_or_empty (title it))))) = (fs', r)"
    from download_and_check_cases [OF this] have
      "r = Inr (True, ''Saved: '' @ os_path_join od (sanitize_filename
                  (raw_filename pub_date (first_or_empty (container_title it))
                     (first_or_empty (title it)))))
       \<or> (\<exists>dest_path. fs' = fs(dest_path := None))" by blast
    moreover have "r \<noteq> Inr (True, ''Saved: '' @ os_path_join od (sanitize_filename
                  (raw_filename pub_date (first_or_empty (container_title it))
                     (first_or_empty (title it)))))"
      using assms b by (auto simp: process_item_def)
    ultimately show ?thesis by blast
  qed simp_all
qed

lemma truthy_py_or: "truthy (py_or x y) = (truthy x \<or> truthy y)"
  by (simp add: py_or_def)

lemma first_url_find:
  "first_url locs =
     (case find has_url locs of None \<Rightarrow> None
      | Some loc \<Rightarrow> if truthy (url_for_pdf loc) then url_for_pdf loc else url loc)"
  by (induction locs) (auto simp: Let_def truthy_py_or has_url_def py_or_def)

lemma str_error_nonempty: "str_error e \<noteq> []"
  by (cases e) (simp_all add: str_error_def)

lemma length_sanitize_filename: "length (sanitize_filename s) = min 200 (length s)"
  by (simp add: sanitize_filename_def min_def)

lemma sanitize_filename_nth:
  "i < length (sanitize_filename s) \<Longrightarrow>
     sanitize_filename s ! i = (if s ! i \<in> set hostile then CHR ''_'' else s ! i)"
  by (simp add: sanitize_filename_def)

lemma sanitize_pdf_suffix:
  assumes "length xs = 4"
  shows "(map (\<lambda>c. if c \<in> set hostile then CHR ''_'' else c) xs = ''.pdf'') = (xs = ''.pdf'')"
proof -
  from assms obtain a b c d where "xs = [a, b, c, d]"
    by (cases xs; cases "tl xs"; cases "tl (tl xs)"; cases "tl (tl (tl xs))") auto
  then show ?thesis by (auto simp: hostile_def)
qed

lemma endswith_sanitize_long:
  assumes "200 < length s"
  shows "endswith (sanitize_filename s) ''.pdf'' = (take 4 (drop 196 s) = ''.pdf'')"
proof -
  let ?f = "\<lambda>c. if c \<in> set hostile then CHR ''_'' else c"
  have l: "length (sanitize_filename s) = 200" using assms by (simp add: length_sanitize_filename)
  have "drop 196 (sanitize_filename s) = map ?f (take 4 (drop 196 s))"
    by (simp add: sanitize_filename_def drop_take take_map drop_map)
  moreover have "length (take 4 (drop 196 s)) = 4" using assms by simp
  ultimately show ?thesis using sanitize_pdf_suffix [of "take 4 (drop 196 s)"] l
    by (simp add: endswith_def)
qed

lemma not_counted:
  assumes "\<not> endswith f ''.pdf''"
  shows "f \<notin> set (pdf_files listdir)" "f \<notin> set (moved_files listdir)"
    "pdf_count (xs @ f # ys) = pdf_count (xs @ ys)"
  using assms by (auto simp: pdf_files_def moved_files_def pdf_count_def)

lemma max_pdfs_per_topic_pos:
  assumes "0 < n"
  shows "(T \<le> int n * max_pdfs_per_topic T n) = (T \<le> 5 * int n \<or> int n dvd T)"
    and "(T < int n * max_pdfs_per_topic T n) = (T < 5 * int n)"
proof -
  define m where "m = int n"
  define q where "q = T div m"
  define r where "r = T mod m"
  have n: "0 < m" using assms by (simp add: m_def)
  have eq: "T = m * q + r" unfolding q_def r_def by simp
  have r: "0 \<le> r" "r < m" using n by (simp_all add: r_def)
  have d: "(m dvd T) = (r = 0)" by (simp add: dvd_eq_mod_eq_0 r_def)
  have t: "max_pdfs_per_topic T n = max 5 q"
    using assms by (simp add: max_pdfs_per_topic_def q_def m_def)
  define p where "p = m * q"
  have eq': "T = p + r" using eq by (simp add: p_def)
  have "(T \<le> m * max 5 q) = (T \<le> 5 * m \<or> r = 0) \<and> (T < m * max 5 q) = (T < 5 * m)"
  proof (cases "5 \<le> q")
    case True
    then have "m * 5 \<le> m * q" using n by (simp add: mult_left_mono)
    then have b: "5 * m \<le> p" by (simp add: p_def mult.commute)
    have "(T \<le> p) = (T \<le> 5 * m \<or> r = 0) \<and> (T < p) = (T < 5 * m)"
      using b eq' r by auto
    moreover have "m * max 5 q = p" using True by (simp add: p_def)
    ultimately show ?thesis by (simp only:)
  next
    case False
    then have "q \<le> 4" by simp
    then have "m * q \<le> m * 4" using n by (simp add: mult_left_mono)
    then have b: "p \<le> 4 * m" by (simp add: p_def mult.commute)
    have lt: "T < 5 * m" using b eq' r by linarith
    then have "(T \<le> 5 * m) = (T \<le> 5 * m \<or> r = 0) \<and> (T < 5 * m) = (T < 5 * m)"
      by auto
    moreover have "m * max 5 q = 5 * m" using False by simp
    ultimately show ?thesis by (simp only:)
  qed
  then have c: "(T \<le> m * max_pdfs_per_topic T n) = (T \<le> 5 * m \<or> m dvd T) \<and>
      (T < m * max_pdfs_per_topic T n) = (T < 5 * m)"
    unfolding t d .
  from c show "(T \<le> int n * max_pdfs_per_topic T n) = (T \<le> 5 * int n \<or> int n dvd T)"
    unfolding m_def by blast
  from c show "(T < int n * max_pdfs_per_topic T n) = (T < 5 * int n)"
    unfolding m_def by blast
qed

section \<open>Properties of the scheduler\<close>

lemmas run_simps = main_def os_makedirs_def ThreadPoolExecutor_def init_sched_def loop_cond_def
  main_loop.simps
  query_crossref_def per_page_def complete_one_def Let_def mk_item_def example_args_def


lemma final_main:
  "final (main w a) = init_sched \<or>
   (\<exists>d. final (main w a) = (main_loop w a init_sched)\<lparr>downloaded := d\<rparr>)"
  by (auto simp: main_def Let_def split: sum.splits)

lemma main_Finished:
  assumes "outcome (main w a) = Inr (Finished d warn)"
  shows "0 < max_arg a"
    and "d = drain (futures (main_loop w a init_sched)) (downloaded (main_loop w a init_sched))"
  using assms
  by (auto simp: main_def ThreadPoolExecutor_def Let_def split: if_splits sum.splits)

lemma main_loop_invariant:
  assumes init: "I s"
    and step: "\<And>s items. I s \<Longrightarrow> loop_cond a s \<Longrightarrow> items \<noteq> [] \<Longrightarrow>
                 I (page_round w a items (log_search s))"
    and stop: "\<And>s. I s \<Longrightarrow> loop_cond a s \<Longrightarrow> Q (log_search s)"
    and exit: "\<And>s. I s \<Longrightarrow> \<not> loop_cond a s \<Longrightarrow> Q s"
  shows "Q (main_loop w a s)"
  using assms
proof (induction w a s rule: main_loop.induct)
  case (1 w a s)
  note init = "1.prems"(1) and step = "1.prems"(2) and stop = "1.prems"(3) and exit = "1.prems"(4)
  show ?case
  proof (cases "loop_cond a s")
    case False
    with exit [OF init] show ?thesis by (simp add: main_loop.simps)
  next
    case c: True
    show ?thesis
    proof (cases "query_crossref w (keywords_arg a) (start_date a) (end_date a) per_page (offset s)
                   (filter_publishers a)")
      case None
      with c stop [OF init c] show ?thesis
        by (simp add: main_loop.simps [of w a s] log_search_def)
    next
      case (Some items)
      show ?thesis
      proof (cases "items = []")
        case True
        with c Some stop [OF init c] show ?thesis
          by (simp add: main_loop.simps [of w a s] log_search_def)
      next
        case False
        have "I (page_round w a items (log_search s))"
          using init c False by (rule step)
        then have "Q (main_loop w a (page_round w a items (log_search s)))"
          using "1.IH" [OF c refl Some False refl refl _ step stop exit]
          by (simp add: page_round_def log_search_def Let_def)
        with c Some False show ?thesis
          by (simp add: main_loop.simps [of w a s] Let_def page_round_def log_search_def)
      qed
    qed
  qed
qed


lemma submit_items_full:
  "int (length (futures s)) \<ge> max_arg a - downloaded s + 10 \<Longrightarrow> submit_items w a its s = s"
  by (cases its) simp_all

lemma submit_items_skip:
  assumes "DOI it = None \<or> DOI it = Some [] \<or> (\<exists>d. DOI it = Some d \<and> d \<in> seen_dois s)"
  shows "submit_items w a (it # its) s = submit_items w a its s"
proof (cases "int (length (futures s)) \<ge> max_arg a - downloaded s + 10")
  case True
  then show ?thesis by (simp add: submit_items_full)
next
  case False
  with assms show ?thesis by (auto split: option.splits)
qed

lemma dedup_inv_submit_items: "dedup_inv s \<Longrightarrow> dedup_inv (submit_items w a its s)"
proof (induction its arbitrary: s)
  case Nil
  then show ?case by simp
next
  case (Cons it its)
  show ?case
  proof (cases "int (length (futures s)) \<ge> max_arg a - downloaded s + 10")
    case True
    with Cons.prems show ?thesis by simp
  next
    case False
    show ?thesis
    proof (cases "DOI it")
      case None
      with False Cons show ?thesis by simp
    next
      case (Some doi)
      show ?thesis
      proof (cases "doi = [] \<or> doi \<in> seen_dois s")
        case True
        with False Some Cons show ?thesis by simp
      next
        case fresh: False
        let ?s' = "s\<lparr>seen_dois := insert doi (seen_dois s), attempts := attempts s + 1,
                     futures := futures s @ [(\<lparr>fid = attempts s + 1,
                        fresult = run_item w (attempts s + 1) it\<rparr>, doi)],
                     submitted := submitted s @ [it]\<rparr>"
        have "dedup_inv ?s'"
          using Cons.prems fresh Some by (auto simp: dedup_inv_def)
        then have "dedup_inv (submit_items w a its ?s')" by (rule Cons.IH)
        with False Some fresh show ?thesis by simp
      qed
    qed
  qed
qed

lemma submitted_complete_one [simp]: "submitted (complete_one fd s) = submitted s"
  by (simp add: complete_one_def split: future_result.splits)
lemma seen_complete_one [simp]: "seen_dois (complete_one fd s) = seen_dois s"
  by (simp add: complete_one_def split: future_result.splits)
lemma searches_complete_one [simp]: "searches (complete_one fd s) = searches s"
  by (simp add: complete_one_def split: future_result.splits)
lemma submitted_process_completed [simp]: "submitted (process_completed a fds s) = submitted s"
  by (induction fds arbitrary: s) (auto simp: Let_def)
lemma seen_process_completed [simp]: "seen_dois (process_completed a fds s) = seen_dois s"
  by (induction fds arbitrary: s) (auto simp: Let_def)
lemma searches_process_completed [simp]: "searches (process_completed a fds s) = searches s"
  by (induction fds arbitrary: s) (auto simp: Let_def)
lemma searches_submit_items [simp]: "searches (submit_items w a its s) = searches s"
  by (induction its arbitrary: s) (auto split: option.splits)

lemma dedup_inv_page_round: "dedup_inv s \<Longrightarrow> dedup_inv (page_round w a items (log_search s))"
proof -
  assume "dedup_inv s"
  then have "dedup_inv (log_search s)" by (simp add: dedup_inv_def log_search_def)
  then have "dedup_inv (submit_items w a items (log_search s))" by (rule dedup_inv_submit_items)
  then show ?thesis by (simp add: dedup_inv_def page_round_def Let_def)
qed

lemma dedup_inv_main_loop: "dedup_inv s \<Longrightarrow> dedup_inv (main_loop w a s)"
proof (rule main_loop_invariant [where I = dedup_inv])
  show "\<And>s. dedup_inv s \<Longrightarrow> loop_cond a s \<Longrightarrow> dedup_inv (log_search s)"
    by (simp add: dedup_inv_def log_search_def)
qed (simp_all add: dedup_inv_page_round)

lemma search_inv_log:
  "search_cont a s \<Longrightarrow> loop_cond a s \<Longrightarrow> search_inv a (log_search s)"
  by (auto simp: search_cont_def search_inv_def log_search_def loop_cond_def nth_append)

lemma search_inv_cong: "searches s' = searches s \<Longrightarrow> search_inv a s' = search_inv a s"
  by (simp add: search_inv_def)

lemma search_cont_page_round:
  assumes "search_cont a s" "loop_cond a s"
  shows "search_cont a (page_round w a items (log_search s))"
proof -
  have "searches (page_round w a items (log_search s)) = searches (log_search s)"
    by (simp add: page_round_def Let_def)
  then have "search_inv a (page_round w a items (log_search s)) = search_inv a (log_search s)"
    by (rule search_inv_cong)
  moreover have "search_inv a (log_search s)" using assms by (rule search_inv_log)
  ultimately have 1: "search_inv a (page_round w a items (log_search s))" by blast
  have o: "offset (page_round w a items (log_search s)) = offset s + per_page"
    by (simp add: page_round_def Let_def log_search_def)
  have l: "length (searches (page_round w a items (log_search s))) = Suc (length (searches s))"
    by (simp add: page_round_def Let_def log_search_def)
  have "offset s = per_page * int (length (searches s))"
    using assms(1) unfolding search_cont_def by blast
  then have "offset (page_round w a items (log_search s)) =
      per_page * int (length (searches (page_round w a items (log_search s))))"
    unfolding o l per_page_def by simp
  with 1 show ?thesis unfolding search_cont_def by (rule conjI)
qed

lemma search_inv_main_loop: "search_cont a s \<Longrightarrow> search_inv a (main_loop w a s)"
proof (rule main_loop_invariant [where I = "search_cont a" and Q = "search_inv a"])
  show "\<And>s. search_cont a s \<Longrightarrow> \<not> loop_cond a s \<Longrightarrow> search_inv a s"
    unfolding search_cont_def by blast
  show "\<And>s items. search_cont a s \<Longrightarrow> loop_cond a s \<Longrightarrow> items \<noteq> [] \<Longrightarrow>
      search_cont a (page_round w a items (log_search s))"
    by (rule search_cont_page_round)
  show "\<And>s. search_cont a s \<Longrightarrow> loop_cond a s \<Longrightarrow> search_inv a (log_search s)"
    by (rule search_inv_log)
qed

lemma search_cont_init: "search_cont a init_sched"
  unfolding search_cont_def search_inv_def by (simp add: init_sched_def)

lemma search_inv_main: "search_inv a (final (main w a))"
proof -
  have i': "search_inv a init_sched" using search_cont_init unfolding search_cont_def by blast
  from final_main [of w a] show ?thesis
  proof
    assume "final (main w a) = init_sched"
    with i' show ?thesis by simp
  next
    assume "\<exists>d. final (main w a) = (main_loop w a init_sched)\<lparr>downloaded := d\<rparr>"
    then have "searches (final (main w a)) = searches (main_loop w a init_sched)" by auto
    then have "search_inv a (final (main w a)) = search_inv a (main_loop w a init_sched)"
      by (rule search_inv_cong)
    moreover have "search_inv a (main_loop w a init_sched)"
      using search_cont_init by (rule search_inv_main_loop)
    ultimately show ?thesis by blast
  qed
qed

lemma search_inv_nth:
  assumes "search_inv a s" "i < length (searches s)" "searches s ! i = (att, off)"
  shows "att < max_arg a * 3" "off = per_page * int i" "off < max_arg a * 3 * 5"
proof -
  from assms(1,2) have "fst (searches s ! i) < max_arg a * 3 \<and>
        snd (searches s ! i) = per_page * int i \<and>
        snd (searches s ! i) < max_arg a * 3 * 5"
    unfolding search_inv_def by blast
  then have "att < max_arg a * 3 \<and> off = per_page * int i \<and> off < max_arg a * 3 * 5"
    unfolding assms(3) fst_conv snd_conv .
  then show "att < max_arg a * 3" "off = per_page * int i" "off < max_arg a * 3 * 5"
    by blast+
qed

lemma search_count_bound:
  assumes "search_inv a s"
  shows "int (length (searches s)) \<le> max 0 ((max_arg a * 3 * 5 + 19) div per_page)"
proof (cases "searches s")
  case Nil
  then show ?thesis by simp
next
  case (Cons x xs)
  obtain att off where l: "searches s ! (length xs) = (att, off)" by (cases "searches s ! (length xs)")
  have n: "length xs < length (searches s)" using Cons by simp
  have "off = per_page * int (length xs)" "off < max_arg a * 3 * 5"
    using search_inv_nth [OF assms n l] by blast+
  then have "20 * int (length xs) < max_arg a * 3 * 5" by (simp only: per_page_def)
  then have "int (length xs) + 1 \<le> (max_arg a * 3 * 5 + 19) div 20" by linarith
  moreover have "int (length (searches s)) = int (length xs) + 1" using Cons by simp
  ultimately show ?thesis unfolding per_page_def by linarith
qed

text \<open>How far the final count can exceed the request: by the buffer of 10 that
  \<open>submit_items\<close> allows, and no more.\<close>

lemma downloaded_submit_items [simp]: "downloaded (submit_items w a its s) = downloaded s"
  by (induction its arbitrary: s) (auto split: option.splits)

lemma length_futures_submit_items:
  "int (length (futures (submit_items w a its s)))
     \<le> max (int (length (futures s))) (max_arg a - downloaded s + 10)"
proof (induction its arbitrary: s)
  case Nil
  then show ?case by simp
next
  case (Cons it its)
  show ?case
  proof (cases "int (length (futures s)) \<ge> max_arg a - downloaded s + 10")
    case True
    then show ?thesis by simp
  next
    case False
    show ?thesis
    proof (cases "\<exists>doi. DOI it = Some doi \<and> doi \<noteq> [] \<and> doi \<notin> seen_dois s")
      case skip: False
      then have "submit_items w a (it # its) s = submit_items w a its s"
        using False by (auto split: option.splits)
      with Cons.IH [of s] show ?thesis by simp
    next
      case True
      then obtain doi where d: "DOI it = Some doi" "doi \<noteq> []" "doi \<notin> seen_dois s" by blast
      let ?s' = "s\<lparr>seen_dois := insert doi (seen_dois s), attempts := attempts s + 1,
                     futures := futures s @ [(\<lparr>fid = attempts s + 1,
                        fresult = run_item w (attempts s + 1) it\<rparr>, doi)],
                     submitted := submitted s @ [it]\<rparr>"
      have "submit_items w a (it # its) s = submit_items w a its ?s'"
        using False d by simp
      moreover have "int (length (futures (submit_items w a its ?s')))
          \<le> max (int (length (futures ?s'))) (max_arg a - downloaded ?s' + 10)"
        by (rule Cons.IH)
      moreover have "int (length (futures ?s')) \<le> max_arg a - downloaded s + 10"
        using False by simp
      ultimately show ?thesis by simp
    qed
  qed
qed

lemma process_completed_pending:
  assumes "futures s = fds" "downloaded s < max_arg a"
  shows "downloaded (process_completed a fds s) \<le> max_arg a \<and>
         (downloaded (process_completed a fds s) < max_arg a \<longrightarrow>
            futures (process_completed a fds s) = []) \<and>
         downloaded (process_completed a fds s) + int (length (futures (process_completed a fds s)))
           \<le> downloaded s + int (length fds)"
  using assms
proof (induction fds arbitrary: s)
  case Nil
  then show ?case by simp
next
  case (Cons fd fds)
  let ?s1 = "complete_one fd s"
  have f1: "futures ?s1 = fds" using Cons.prems(1)
    by (simp add: complete_one_def split: future_result.splits)
  have d1: "downloaded ?s1 = downloaded s \<or> downloaded ?s1 = downloaded s + 1"
    by (simp add: complete_one_def split: future_result.splits)
  show ?case
  proof (cases "downloaded ?s1 \<ge> max_arg a")
    case True
    then have "process_completed a (fd # fds) s = ?s1" by (simp add: Let_def)
    with True f1 d1 Cons.prems(2) show ?thesis by auto
  next
    case False
    then have e: "process_completed a (fd # fds) s = process_completed a fds ?s1"
      by (simp add: Let_def)
    from False have "downloaded ?s1 < max_arg a" by simp
    from Cons.IH [OF f1 this] d1 show ?thesis unfolding e by auto
  qed
qed

lemma pending_inv_page_round:
  assumes "pending_inv a s" "loop_cond a s"
  shows "pending_inv a (page_round w a items (log_search s))"
proof -
  from assms have lt: "downloaded s < max_arg a" by (simp add: loop_cond_def)
  with assms(1) have e: "futures s = []" by (simp add: pending_inv_def)
  let ?s1 = "submit_items w a items (log_search s)"
  let ?s2 = "?s1\<lparr>offset := offset ?s1 + per_page\<rparr>"
  have l: "int (length (futures ?s1)) \<le> max_arg a - downloaded s + 10"
    using length_futures_submit_items [of w a items "log_search s"] e lt
    by (simp add: log_search_def)
  have d: "downloaded ?s2 = downloaded s" by (simp add: log_search_def)
  have "futures ?s2 = futures ?s2" "downloaded ?s2 < max_arg a" using lt d by simp_all
  from process_completed_pending [OF this] l d
  show ?thesis by (simp add: pending_inv_def page_round_def Let_def)
qed

lemma pending_inv_main_loop: "pending_inv a s \<Longrightarrow> pending_inv a (main_loop w a s)"
proof (rule main_loop_invariant [where I = "pending_inv a" and Q = "pending_inv a"])
  show "\<And>s. pending_inv a s \<Longrightarrow> loop_cond a s \<Longrightarrow> pending_inv a (log_search s)"
    by (simp add: pending_inv_def log_search_def)
  show "\<And>s items. pending_inv a s \<Longrightarrow> loop_cond a s \<Longrightarrow> items \<noteq> [] \<Longrightarrow>
      pending_inv a (page_round w a items (log_search s))"
    by (rule pending_inv_page_round)
qed

lemma drain_le: "drain fds d \<le> d + int (length fds)"
proof (induction fds arbitrary: d)
  case Nil
  then show ?case by simp
next
  case (Cons fd fds)
  obtain f doi where fd: "fd = (f, doi)" by (cases fd)
  define d' where "d' = (case fresult f of Returned success message \<Rightarrow> (if success then d + 1 else d)
                | TimedOut \<Rightarrow> d | Raised e \<Rightarrow> d)"
  have "d' \<le> d + 1" by (simp add: d'_def split: future_result.splits)
  moreover have "drain (fd # fds) d = drain fds d'" by (simp add: fd d'_def)
  moreover have "drain fds d' \<le> d' + int (length fds)" by (rule Cons.IH)
  ultimately show ?case by simp
qed

lemma reported_at_most_ten_over:
  assumes "outcome (main w a) = Inr (Finished d warn)"
  shows "d \<le> max_arg a + 10"
proof -
  note m = main_Finished [OF assms]
  from m(1) have "pending_inv a init_sched" by (simp add: pending_inv_def init_sched_def)
  then have "pending_inv a (main_loop w a init_sched)" by (rule pending_inv_main_loop)
  then show ?thesis
    using drain_le [of "futures (main_loop w a init_sched)" "downloaded (main_loop w a init_sched)"]
      m(2)
    by (simp add: pending_inv_def)
qed

section \<open>The claims\<close>

text \<open>
  C1. The claim: for every run, the final reported count is at most \<^verbatim>\<open>--max\<close>. The code
  counts every success among the futures still pending when the loop ends, without a bound:
  with \<^verbatim>\<open>--max 1\<close> and a first page of two items that both succeed, the first success ends
  the loop, the second is counted by the final loop, and the run reports 2.
\<close>

theorem main_overshoot:
  "max_arg (example_args 1) = 1 \<and>
   outcome (main overshoot_world (example_args 1)) = Inr (Finished 2 False)"
  by (simp add: run_simps overshoot_world_def)

text \<open>
  C2. Every search request is issued while \<open>attempts < 3 * max\<close> and while the offset is below
  \<open>max * 3 * 5\<close>, hence never beyond \<open>max * 3 * page_size\<close> with the page size 20; and the
  loop ends: a run issues at most \<open>\<lceil>15 * max / 20\<rceil>\<close> search requests (none when
  \<open>max \<le> 0\<close>). \<open>main_loop\<close> is a total function, by the termination proof above.
\<close>

theorem main_search_bounds:
  "(\<forall>(att, off) \<in> set (searches (final (main w a))).
      att < max_arg a * 3 \<and> off < max_arg a * 3 * 5 \<and> \<not> off > max_arg a * 3 * per_page) \<and>
   int (length (searches (final (main w a)))) \<le> max 0 ((max_arg a * 3 * 5 + 19) div per_page)"
proof
  have inv: "search_inv a (final (main w a))" by (rule search_inv_main)
  show "\<forall>(att, off) \<in> set (searches (final (main w a))).
      att < max_arg a * 3 \<and> off < max_arg a * 3 * 5 \<and> \<not> off > max_arg a * 3 * per_page"
  proof (clarify, intro conjI)
    fix att off
    assume "(att, off) \<in> set (searches (final (main w a)))"
    then obtain i where i: "i < length (searches (final (main w a)))"
      "searches (final (main w a)) ! i = (att, off)" by (auto simp: in_set_conv_nth)
    note b = search_inv_nth [OF inv i]
    show "att < max_arg a * 3" by (rule b(1))
    show "off < max_arg a * 3 * 5" by (rule b(3))
    have "0 \<le> off" unfolding b(2) by (simp add: per_page_def)
    with b(3) show "\<not> off > max_arg a * 3 * per_page" unfolding per_page_def by linarith
  qed
  show "int (length (searches (final (main w a)))) \<le> max 0 ((max_arg a * 3 * 5 + 19) div per_page)"
    using inv by (rule search_count_bound)
qed

theorem main_search_bounds_witness:
  "searches (final (main paged_world (example_args 3))) = [(0, 0), (2, 20), (4, 40)] \<and>
   (4::int) < max_arg (example_args 3) * 3 \<and> (40::int) < max_arg (example_args 3) * 3 * 5 \<and>
   (3::int) \<le> max 0 ((max_arg (example_args 3) * 3 * 5 + 19) div per_page)"
  using main_search_bounds [of paged_world "example_args 3"]
  by (simp add: run_simps paged_world_def)

text \<open>
  C3. Within one run, the items handed to the item pipeline have pairwise different DOIs, and
  each of them has a DOI that is present and not empty; an item whose DOI is missing, empty or
  already in the seen set is passed over: the loop goes on as if the item were not on the page.
\<close>

theorem main_submits_each_doi_once:
  "distinct (map DOI (submitted (final (main w a)))) \<and>
   (\<forall>it \<in> set (submitted (final (main w a))). \<exists>d. DOI it = Some d \<and> d \<noteq> []) \<and>
   (\<forall>it its s.
      DOI it = None \<or> DOI it = Some [] \<or> (\<exists>d. DOI it = Some d \<and> d \<in> seen_dois s) \<longrightarrow>
      submit_items w a (it # its) s = submit_items w a its s)"
proof -
  have i: "dedup_inv init_sched" by (simp add: dedup_inv_def init_sched_def)
  have "dedup_inv (final (main w a))"
    using final_main [of w a]
  proof
    assume "final (main w a) = init_sched"
    with i show ?thesis by simp
  next
    assume "\<exists>d. final (main w a) = (main_loop w a init_sched)\<lparr>downloaded := d\<rparr>"
    then obtain d where d: "final (main w a) = (main_loop w a init_sched)\<lparr>downloaded := d\<rparr>"
      by blast
    have "dedup_inv (main_loop w a init_sched)" using i by (rule dedup_inv_main_loop)
    then show ?thesis unfolding d by (simp add: dedup_inv_def)
  qed
  then have "distinct (map DOI (submitted (final (main w a))))"
    and "\<forall>it \<in> set (submitted (final (main w a))). \<exists>d. DOI it = Some d \<and> d \<noteq> []"
    by (auto simp: dedup_inv_def)
  moreover have "\<forall>it its s.
      DOI it = None \<or> DOI it = Some [] \<or> (\<exists>d. DOI it = Some d \<and> d \<in> seen_dois s) \<longrightarrow>
      submit_items w a (it # its) s = submit_items w a its s"
    using submit_items_skip by blast
  ultimately show ?thesis by blast
qed

theorem main_submits_each_doi_once_witness:
  "map DOI (submitted (final (main paged_world (example_args 3)))) =
     [Some ''10.1/a'', Some ''10.1/b'', Some ''10.1/c'', Some ''10.1/d'', Some ''10.1/e''] \<and>
   distinct (map DOI (submitted (final (main paged_world (example_args 3)))))"
  using main_submits_each_doi_once [of paged_world "example_args 3"]
  by (simp add: run_simps paged_world_def)

text \<open>
  C4. Whenever \<^verbatim>\<open>process_item\<close> returns a success, its message names the destination
  path, a file exists at that path, the first four bytes of the file are \<^verbatim>\<open>%PDF\<close> and the
  file has at least 1024 bytes.
\<close>

theorem process_item_success_file:
  assumes "process_item w fs it em od a = (fs', Inr (True, msg))"
  shows "\<exists>dest_path data. msg = ''Saved: '' @ dest_path \<and> os_path_exists fs' dest_path \<and>
           fs' dest_path = Some data \<and> take 4 data = ''%PDF'' \<and> 1024 \<le> length data"
  using process_item_True [OF assms] by (auto simp: os_path_exists_def)

theorem process_item_success_file_witness:
  "process_item example_env Map.empty (example_item ''10.1/ok'') ''a@b.c'' ''out'' (example_args 1)
     = ([''out/2024-5 - J - T_ a_b.pdf'' \<mapsto> pdf_bytes],
        Inr (True, ''Saved: out/2024-5 - J - T_ a_b.pdf'')) \<and>
   take 4 pdf_bytes = ''%PDF'' \<and> 1024 \<le> length pdf_bytes"
proof -
  have run: "process_item example_env Map.empty (example_item ''10.1/ok'') ''a@b.c'' ''out''
      (example_args 1)
     = ([''out/2024-5 - J - T_ a_b.pdf'' \<mapsto> pdf_bytes],
        Inr (True, ''Saved: out/2024-5 - J - T_ a_b.pdf''))"
    by (simp add: pipeline_simps example_env_def example_item_def example_args_def pdf_bytes_def)
  from process_item_success_file [OF run]
  have "take 4 pdf_bytes = ''%PDF'' \<and> 1024 \<le> length pdf_bytes" by auto
  with run show ?thesis by simp
qed

text \<open>
  C5. A fetch that fails (\<^verbatim>\<open>download_file\<close> returns \<^verbatim>\<open>False\<close>: request error, broken
  stream, fewer than 1024 bytes) leaves no file at the destination path; neither does a failed
  outcome of the download and its checks (also a bad signature). A success leaves at the
  destination path exactly the bytes that were streamed, which are a valid PDF of at least
  1024 bytes, and changes no other path. A failure of \<^verbatim>\<open>process_item\<close> as a whole leaves
  no file that was not there before.
\<close>

theorem failed_fetch_leaves_no_file:
  "(download_file w fs u d = (fs1, False) \<longrightarrow> fs1 d = None) \<and>
   (download_and_check w fs u d = (fs', Inr (False, msg)) \<longrightarrow> fs' d = None) \<and>
   (download_and_check w fs u d = (fs', Inr (True, msg)) \<longrightarrow>
      (\<exists>chunks. http_get w u = Streamed chunks False \<and> fs' = fs(d \<mapsto> concat chunks) \<and>
         take 4 (concat chunks) = ''%PDF'' \<and> 1024 \<le> length (concat chunks))) \<and>
   (process_item w fs it em od a = (fs2, Inr (False, msg)) \<longrightarrow>
      (\<forall>p. fs2 p = None \<or> fs2 p = fs p))"
proof (intro conjI impI)
  assume "download_file w fs u d = (fs1, False)"
  from download_file_False [OF this] show "fs1 d = None" by simp
next
  assume "download_and_check w fs u d = (fs', Inr (False, msg))"
  from download_and_check_cases [OF this] show "fs' d = None" by auto
next
  assume "download_and_check w fs u d = (fs', Inr (True, msg))"
  from download_and_check_cases [OF this]
  show "\<exists>chunks. http_get w u = Streamed chunks False \<and> fs' = fs(d \<mapsto> concat chunks) \<and>
         take 4 (concat chunks) = ''%PDF'' \<and> 1024 \<le> length (concat chunks)" by auto
next
  assume "process_item w fs it em od a = (fs2, Inr (False, msg))"
  from process_item_False [OF this] show "\<forall>p. fs2 p = None \<or> fs2 p = fs p" by auto
qed

theorem failed_fetch_leaves_no_file_witness:
  "download_file example_env [''out/f.pdf'' \<mapsto> ''old''] ''http://h/cut'' ''out/f.pdf''
     = (Map.empty, False) \<and>
   download_and_check example_env [''out/f.pdf'' \<mapsto> ''old''] ''http://h/none'' ''out/f.pdf''
     = (Map.empty, Inr (False, ''Failed to download PDF from: http://h/none'')) \<and>
   download_and_check example_env Map.empty ''http://h/small'' ''out/f.pdf''
     = (Map.empty, Inr (False, ''Failed to download PDF from: http://h/small'')) \<and>
   download_and_check example_env Map.empty ''http://h/page'' ''out/f.pdf''
     = (Map.empty, Inr (False, ''Downloaded file is not a valid PDF from: http://h/page'')) \<and>
   download_and_check example_env Map.empty ''http://h/a.pdf'' ''out/nul''
     = (Map.empty, Inr (False, ''Failed to download PDF from: http://h/a.pdf'')) \<and>
   download_and_check example_env [''out/f.pdf'' \<mapsto> ''old''] ''http://h/a.pdf'' ''out/f.pdf''
     = ([''out/f.pdf'' \<mapsto> pdf_bytes], Inr (True, ''Saved: out/f.pdf'')) \<and>
   process_item example_env [''out/g.pdf'' \<mapsto> ''old''] (example_item ''10.1/page'') ''a@b.c''
       ''out'' (example_args 1)
     = ([''out/g.pdf'' \<mapsto> ''old''],
        Inr (False, ''Downloaded file is not a valid PDF from: http://h/page'')) \<and>
   (Map.empty :: filesystem) ''out/f.pdf'' = None"
proof -
  have cut: "download_file example_env [''out/f.pdf'' \<mapsto> ''old''] ''http://h/cut'' ''out/f.pdf''
     = (Map.empty, False)"
    by (simp add: pipeline_simps example_env_def pdf_bytes_def)
  have none: "download_and_check example_env [''out/f.pdf'' \<mapsto> ''old''] ''http://h/none''
       ''out/f.pdf''
     = (Map.empty, Inr (False, ''Failed to download PDF from: http://h/none''))"
    by (simp add: pipeline_simps example_env_def)
  have small: "download_and_check example_env Map.empty ''http://h/small'' ''out/f.pdf''
     = (Map.empty, Inr (False, ''Failed to download PDF from: http://h/small''))"
    by (simp add: pipeline_simps example_env_def)
  have page: "download_and_check example_env Map.empty ''http://h/page'' ''out/f.pdf''
     = (Map.empty, Inr (False, ''Downloaded file is not a valid PDF from: http://h/page''))"
    by (simp add: pipeline_simps example_env_def html_bytes_def)
  have nul: "download_and_check example_env Map.empty ''http://h/a.pdf'' ''out/nul''
     = (Map.empty, Inr (False, ''Failed to download PDF from: http://h/a.pdf''))"
    by (simp add: pipeline_simps example_env_def)
  have ok: "download_and_check example_env [''out/f.pdf'' \<mapsto> ''old''] ''http://h/a.pdf''
       ''out/f.pdf''
     = ([''out/f.pdf'' \<mapsto> pdf_bytes], Inr (True, ''Saved: out/f.pdf''))"
    by (simp add: pipeline_simps example_env_def pdf_bytes_def)
  have item: "process_item example_env [''out/g.pdf'' \<mapsto> ''old''] (example_item ''10.1/page'')
       ''a@b.c'' ''out'' (example_args 1)
     = ([''out/g.pdf'' \<mapsto> ''old''],
        Inr (False, ''Downloaded file is not a valid PDF from: http://h/page''))"
    by (simp add: pipeline_simps example_env_def example_item_def example_args_def
        html_bytes_def)
  note inst = failed_fetch_leaves_no_file [of example_env "[''out/f.pdf'' \<mapsto> ''old'']"
      "''http://h/cut''" "''out/f.pdf''" Map.empty Map.empty
      "''Downloaded file is not a valid PDF from: http://h/page''"
      "example_item ''10.1/page''" "''a@b.c''" "''out''" "example_args 1"
      "[''out/g.pdf'' \<mapsto> ''old'']"]
  from inst cut have "(Map.empty :: filesystem) ''out/f.pdf'' = None" by blast
  with cut none small page nul ok item show ?thesis by blast
qed

text \<open>
  C6. The resolver returns nothing when the lookup fails. Otherwise it returns the best
  location's \<^verbatim>\<open>url_for_pdf\<close> if that is usable, else the best location's \<^verbatim>\<open>url\<close> if
  that is usable, else the URL of the first location in \<^verbatim>\<open>oa_locations\<close> that has one
  (its \<^verbatim>\<open>url_for_pdf\<close> before its \<^verbatim>\<open>url\<close>), and nothing when there is none; in
  particular nothing when no location is reported.
\<close>

theorem get_pdf_url_preference:
  "(unpaywall w doi em = LookupFailed \<longrightarrow> get_pdf_url_from_unpaywall w doi em = None) \<and>
   (\<forall>data others. unpaywall w doi em = Json data \<and>
        others = (case oa_locations data of None \<Rightarrow> [] | Some locs \<Rightarrow> locs) \<longrightarrow>
      get_pdf_url_from_unpaywall w doi em =
        (case best_oa_location data of
           Some best \<Rightarrow>
             if truthy (url_for_pdf best) then url_for_pdf best
             else if truthy (url best) then url best
             else (case find has_url others of None \<Rightarrow> None
                   | Some loc \<Rightarrow> if truthy (url_for_pdf loc) then url_for_pdf loc else url loc)
         | None \<Rightarrow>
             (case find has_url others of None \<Rightarrow> None
              | Some loc \<Rightarrow> if truthy (url_for_pdf loc) then url_for_pdf loc else url loc)) \<and>
      (best_oa_location data = None \<and> others = [] \<longrightarrow>
         get_pdf_url_from_unpaywall w doi em = None))"
proof (intro conjI allI impI)
  assume "unpaywall w doi em = LookupFailed"
  then show "get_pdf_url_from_unpaywall w doi em = None"
    by (simp add: get_pdf_url_from_unpaywall_def)
next
  fix data others
  assume a: "unpaywall w doi em = Json data \<and>
        others = (case oa_locations data of None \<Rightarrow> [] | Some locs \<Rightarrow> locs)"
  then show "get_pdf_url_from_unpaywall w doi em =
        (case best_oa_location data of
           Some best \<Rightarrow>
             if truthy (url_for_pdf best) then url_for_pdf best
             else if truthy (url best) then url best
             else (case find has_url others of None \<Rightarrow> None
                   | Some loc \<Rightarrow> if truthy (url_for_pdf loc) then url_for_pdf loc else url loc)
         | None \<Rightarrow>
             (case find has_url others of None \<Rightarrow> None
              | Some loc \<Rightarrow> if truthy (url_for_pdf loc) then url_for_pdf loc else url loc))"
    by (cases "best_oa_location data")
       (auto simp: get_pdf_url_from_unpaywall_def Let_def first_url_find py_or_def)
  assume "best_oa_location data = None \<and> others = []"
  with a show "get_pdf_url_from_unpaywall w doi em = None"
    by (auto simp: get_pdf_url_from_unpaywall_def Let_def split: option.splits)
qed

theorem get_pdf_url_preference_witness:
  "get_pdf_url_from_unpaywall example_env ''10.1/ok'' ''a@b.c'' = Some ''http://h/a.pdf'' \<and>
   get_pdf_url_from_unpaywall example_env ''10.1/page'' ''a@b.c'' = Some ''http://h/page'' \<and>
   get_pdf_url_from_unpaywall example_env ''10.1/other'' ''a@b.c'' = Some ''http://h/small'' \<and>
   get_pdf_url_from_unpaywall example_env ''10.1/closed'' ''a@b.c'' = None \<and>
   get_pdf_url_from_unpaywall example_env ''10.1/zzz'' ''a@b.c'' = None \<and>
   unpaywall example_env ''10.1/zzz'' ''a@b.c'' = LookupFailed"
  using get_pdf_url_preference [of example_env "''10.1/zzz''" "''a@b.c''"]
    get_pdf_url_preference [of example_env "''10.1/other''" "''a@b.c''"]
    get_pdf_url_preference [of example_env "''10.1/closed''" "''a@b.c''"]
  by (simp add: pipeline_simps example_env_def has_url_def)

text \<open>
  C7. For every item, email, output directory and argument record, \<^verbatim>\<open>process_item\<close>
  returns a pair of a flag and a non-empty message and raises nothing: an exception that
  leaves the body is returned as a failure whose message carries the exception's text, and
  the flag is true only if the resolver gave a URL, the download ran to its end, and the
  file has at least 1024 bytes and the PDF signature.
\<close>

theorem process_item_never_raises:
  "\<exists>fs' success message.
     process_item w fs it em od a = (fs', Inr (success, message)) \<and> message \<noteq> [] \<and>
     (\<forall>e. snd (process_item_body w fs it em od a) = Inl e \<longrightarrow>
        \<not> success \<and> message = ''Error processing item: '' @ str_error e) \<and>
     (success \<longrightarrow>
        (\<exists>u chunks. get_pdf_url_from_unpaywall w (str_opt (DOI it)) em = Some u \<and>
           http_get w u = Streamed chunks False \<and> 1024 \<le> length (concat chunks) \<and>
           take 4 (concat chunks) = ''%PDF''))"
proof -
  obtain fs' r where p: "process_item w fs it em od a = (fs', r)"
    by (cases "process_item w fs it em od a")
  from process_item_result [OF p] show ?thesis
  proof
    assume "\<exists>e. process_item_body w fs it em od a = (fs', Inl e) \<and>
              r = Inr (False, ''Error processing item: '' @ str_error e)"
    with p show ?thesis by auto
  next
    assume b: "process_item_body w fs it em od a = (fs', r) \<and> (\<exists>p. r = Inr p)"
    then obtain success message where r: "r = Inr (success, message)" by auto
    have m: "message \<noteq> []"
    proof -
      from b have "process_item_body w fs it em od a = (fs', r)" by simp
      from process_item_body_cases [OF this] show ?thesis
      proof (elim disjE exE conjE)
        fix pub_date u
        assume "download_and_check w fs u
               (os_path_join od (sanitize_filename
                  (raw_filename pub_date (first_or_empty (container_title it))
                     (first_or_empty (title it))))) = (fs', r)"
        from download_and_check_cases [OF this] r show ?thesis by auto
      qed (use r in auto)
    qed
    have s: "success \<longrightarrow>
        (\<exists>u chunks. get_pdf_url_from_unpaywall w (str_opt (DOI it)) em = Some u \<and>
           http_get w u = Streamed chunks False \<and> 1024 \<le> length (concat chunks) \<and>
           take 4 (concat chunks) = ''%PDF'')"
    proof
      assume success
      with p r have "process_item w fs it em od a = (fs', Inr (True, message))" by simp
      from process_item_True [OF this] show "\<exists>u chunks.
          get_pdf_url_from_unpaywall w (str_opt (DOI it)) em = Some u \<and>
           http_get w u = Streamed chunks False \<and> 1024 \<le> length (concat chunks) \<and>
           take 4 (concat chunks) = ''%PDF''" by blast
    qed
    from b r have "\<forall>e. snd (process_item_body w fs it em od a) \<noteq> Inl e" by auto
    with p r m s show ?thesis by auto
  qed
qed

theorem process_item_never_raises_witness:
  "process_item_body example_env Map.empty null_date_item ''a@b.c'' ''out'' (example_args 1)
     = (Map.empty, Inl TypeError) \<and>
   process_item example_env Map.empty null_date_item ''a@b.c'' ''out'' (example_args 1)
     = (Map.empty, Inr (False, ''Error processing item: '' @ str_error TypeError)) \<and>
   process_item example_env Map.empty (example_item ''10.1/zzz'') ''a@b.c'' ''out'' (example_args 1)
     = (Map.empty, Inr (False, ''No OA PDF reported by Unpaywall for DOI: 10.1/zzz'')) \<and>
   process_item example_env Map.empty (example_item ''10.1/other'') ''a@b.c'' ''out'' (example_args 1)
     = (Map.empty, Inr (False, ''Failed to download PDF from: http://h/small'')) \<and>
   process_item example_env Map.empty (example_item ''10.1/page'') ''a@b.c'' ''out'' (example_args 1)
     = (Map.empty, Inr (False, ''Downloaded file is not a valid PDF from: http://h/page'')) \<and>
   snd (process_item example_env Map.empty (example_item ''10.1/ok'') ''a@b.c'' ''out''
          (example_args 1))
     = Inr (True, ''Saved: out/2024-5 - J - T_ a_b.pdf'') \<and>
   get_pdf_url_from_unpaywall example_env ''10.1/ok'' ''a@b.c'' = Some ''http://h/a.pdf'' \<and>
   process_item example_env Map.empty ((mk_item (Some ''10.1/ok''))\<lparr>publisher := Some None\<rparr>)
       ''a@b.c'' ''out'' ((example_args 1)\<lparr>filter_publishers := True\<rparr>)
     = (Map.empty, Inr (False, ''Skipping 10.1/ok - Publisher None not in preferred list''))"
  using
    process_item_never_raises [of example_env Map.empty null_date_item "''a@b.c''" "''out''"
      "example_args 1"]
    process_item_never_raises [of example_env Map.empty "example_item ''10.1/ok''" "''a@b.c''"
      "''out''" "example_args 1"]
  by (simp add: pipeline_simps example_env_def example_item_def null_date_item_def
      example_args_def html_bytes_def mk_item_def)

text \<open>
  C8, as amended. Every topic's target is \<open>max 5 (total div topics)\<close>. The targets add up to
  at least the requested total exactly when the total is at most five times the number of
  topics or the number of topics divides the total, and to more than the total exactly when
  the total is below five times the number of topics. A job can then deliver more than was
  requested: with one topic and a request of 3, a run that finds five PDFs reports 5.
\<close>

theorem max_pdfs_per_topic_sum:
  "max_pdfs_per_topic T n = max 5 (T div (if n = 0 then 1 else int n)) \<and>
   ((T \<le> int n * max_pdfs_per_topic T n) = (T \<le> 5 * int n \<or> int n dvd T)) \<and>
   ((T < int n * max_pdfs_per_topic T n) = (T < 5 * int n))"
proof (cases "n = 0")
  case True
  then show ?thesis by (auto simp: max_pdfs_per_topic_def)
next
  case False
  then have "0 < n" by simp
  from max_pdfs_per_topic_pos [OF this, of T] False show ?thesis
    by (simp add: max_pdfs_per_topic_def)
qed

theorem max_pdfs_per_topic_sum_witness:
  "max_pdfs_per_topic 20 3 = 6 \<and> max_pdfs_per_topic 3 1 = 5 \<and> max_pdfs_per_topic 10 2 = 5 \<and>
   \<not> (20::int) \<le> 3 * max_pdfs_per_topic 20 3 \<and> (3::int) < 1 * max_pdfs_per_topic 3 1 \<and>
   outcome (main five_world (example_args (max_pdfs_per_topic 3 1))) = Inr (Finished 5 False)"
  using max_pdfs_per_topic_sum [of 20 3] max_pdfs_per_topic_sum [of 3 1]
  by (simp add: max_pdfs_per_topic_def run_simps five_world_def)

text \<open>
  C8 as stated fails: 11 PDFs over 2 topics give two targets of 5, which add up to 10; and 20
  PDFs over 2 topics give two targets of 10, which do not exceed 20.
\<close>

theorem per_topic_sum_can_fall_short:
  "max_pdfs_per_topic 11 2 = 5 \<and> 2 * max_pdfs_per_topic 11 2 < 11 \<and>
   max_pdfs_per_topic 20 2 = 10 \<and> \<not> 20 < 2 * max_pdfs_per_topic 20 2"
  by (simp add: max_pdfs_per_topic_def)

text \<open>
  C9, as amended. \<^verbatim>\<open>sanitize_filename\<close> returns at most 200 characters, each the input's
  character at that position with the nine hostile characters replaced by an underscore. For
  a work whose name before sanitizing is longer than 200 characters the saved name has
  exactly 200 characters, and ends in \<^verbatim>\<open>.pdf\<close> exactly when characters 197 to 200 of
  the name are \<^verbatim>\<open>.pdf\<close>; when they are not, the saved file is not among the counted
  files, does not add to \<open>pdf_count\<close> and is not among the moved files.
\<close>

theorem sanitize_filename_truncates:
  "length (sanitize_filename s) \<le> 200 \<and>
   (\<forall>i < length (sanitize_filename s).
      sanitize_filename s ! i = (if s ! i \<in> set hostile then CHR ''_'' else s ! i)) \<and>
   (200 < length (raw_filename pub_date journal title_str) \<longrightarrow>
      length (sanitize_filename (raw_filename pub_date journal title_str)) = 200 \<and>
      endswith (sanitize_filename (raw_filename pub_date journal title_str)) ''.pdf'' =
        (take 4 (drop 196 (raw_filename pub_date journal title_str)) = ''.pdf'')) \<and>
   (200 < length (raw_filename pub_date journal title_str) \<and>
    take 4 (drop 196 (raw_filename pub_date journal title_str)) \<noteq> ''.pdf'' \<longrightarrow>
      \<not> endswith (sanitize_filename (raw_filename pub_date journal title_str)) ''.pdf'' \<and>
      sanitize_filename (raw_filename pub_date journal title_str) \<notin> set (pdf_files listdir) \<and>
      sanitize_filename (raw_filename pub_date journal title_str) \<notin> set (moved_files listdir) \<and>
      pdf_count (xs @ sanitize_filename (raw_filename pub_date journal title_str) # ys) =
        pdf_count (xs @ ys))"
proof (intro conjI allI impI)
  show "length (sanitize_filename s) \<le> 200" by (simp add: length_sanitize_filename)
next
  fix i assume "i < length (sanitize_filename s)"
  then show "sanitize_filename s ! i = (if s ! i \<in> set hostile then CHR ''_'' else s ! i)"
    by (rule sanitize_filename_nth)
next
  let ?n = "raw_filename pub_date journal title_str"
  assume l: "200 < length ?n"
  show "length (sanitize_filename ?n) = 200" using l by (simp add: length_sanitize_filename)
  show "endswith (sanitize_filename ?n) ''.pdf'' = (take 4 (drop 196 ?n) = ''.pdf'')"
    using l by (rule endswith_sanitize_long)
next
  let ?n = "raw_filename pub_date journal title_str"
  assume a: "200 < length ?n \<and> take 4 (drop 196 ?n) \<noteq> ''.pdf''"
  then show e: "\<not> endswith (sanitize_filename ?n) ''.pdf''"
    by (simp add: endswith_sanitize_long)
  from not_counted [OF e]
  show "sanitize_filename ?n \<notin> set (pdf_files listdir)"
    "sanitize_filename ?n \<notin> set (moved_files listdir)"
    "pdf_count (xs @ sanitize_filename ?n # ys) = pdf_count (xs @ ys)"
    by blast+
qed

theorem sanitize_filename_truncates_witness:
  "200 < length (raw_filename ''unknown'' [] (replicate 200 (CHR ''a''))) \<and>
   take 4 (drop 196 (raw_filename ''unknown'' [] (replicate 200 (CHR ''a'')))) \<noteq> ''.pdf'' \<and>
   snd (process_item example_env Map.empty long_title_item ''a@b.c'' ''out'' (example_args 1))
     = Inr (True, ''Saved: out/'' @
         sanitize_filename (raw_filename ''unknown'' [] (replicate 200 (CHR ''a'')))) \<and>
   sanitize_filename (raw_filename ''unknown'' [] (replicate 200 (CHR ''a'')))
     = ''unknown -  - '' @ replicate 187 (CHR ''a'') \<and>
   \<not> endswith (sanitize_filename (raw_filename ''unknown'' [] (replicate 200 (CHR ''a'')))) ''.pdf'' \<and>
   pdf_count [sanitize_filename (raw_filename ''unknown'' [] (replicate 200 (CHR ''a'')))] = 0 \<and>
   moved_files [sanitize_filename (raw_filename ''unknown'' [] (replicate 200 (CHR ''a'')))] = [] \<and>
   sanitize_filename ''T: a/b?.pdf'' = ''T_ a_b_.pdf''"
proof -
  have r4: "replicate 4 (CHR ''a'') \<noteq> ''.pdf''" by (simp add: numeral_eq_Suc)
  show ?thesis
    using sanitize_filename_truncates [of "''T: a/b?.pdf''" "''unknown''" "[]"
        "replicate 200 (CHR ''a'')" "[]" "[]" "[]"] r4
    by (simp add: pipeline_simps example_env_def long_title_item_def example_args_def
        pdf_count_def pdf_files_def moved_files_def)
qed

text \<open>
  C9 as stated fails: a title of 183 letters followed by \<^verbatim>\<open>.pdf\<close> gives a name of 204
  characters whose first 200 end in \<^verbatim>\<open>.pdf\<close>; \<^verbatim>\<open>process_item\<close> succeeds, and the file
  is counted.
\<close>

theorem truncated_name_can_end_in_pdf:
  "200 < length (raw_filename ''unknown'' [] (replicate 183 (CHR ''a'') @ ''.pdf'')) \<and>
   snd (process_item example_env Map.empty pdf_title_item ''a@b.c'' ''out'' (example_args 1))
     = Inr (True, ''Saved: out/'' @
         sanitize_filename (raw_filename ''unknown'' [] (replicate 183 (CHR ''a'') @ ''.pdf''))) \<and>
   sanitize_filename (raw_filename ''unknown'' [] (replicate 183 (CHR ''a'') @ ''.pdf''))
     = ''unknown -  - '' @ replicate 183 (CHR ''a'') @ ''.pdf'' \<and>
   endswith (sanitize_filename (raw_filename ''unknown'' [] (replicate 183 (CHR ''a'') @ ''.pdf'')))
     ''.pdf'' \<and>
   pdf_count [sanitize_filename (raw_filename ''unknown'' [] (replicate 183 (CHR ''a'') @ ''.pdf''))]
     = 1"
  by (simp add: pipeline_simps example_env_def pdf_title_item_def example_args_def
      pdf_count_def pdf_files_def)

text \<open>
  C10, as amended. With a valid email and \<^verbatim>\<open>--max\<close> at most 0, \<^verbatim>\<open>main\<close> raises: it
  issues no search request, submits nothing and prints no summary. The exception is the one
  of \<^verbatim>\<open>os.makedirs\<close> when the output directory cannot be created, and otherwise the
  \<^verbatim>\<open>ValueError\<close> of the worker pool's constructor.
\<close>

theorem main_nonpositive_max_raises:
  assumes "email a \<noteq> []" and "CHR ''@'' \<in> set (email a)" and "max_arg a \<le> 0"
  shows "(\<exists>e. outcome (main w a) = Inl e) \<and>
     searches (final (main w a)) = [] \<and> submitted (final (main w a)) = [] \<and>
     (os_makedirs w (outdir a) = Inr () \<longrightarrow> outcome (main w a) = Inl ValueError) \<and>
     (\<forall>e. os_makedirs w (outdir a) = Inl e \<longrightarrow> outcome (main w a) = Inl e)"
proof (cases "os_makedirs w (outdir a)")
  case (Inl e)
  with assms show ?thesis by (simp add: main_def init_sched_def)
next
  case (Inr made)
  with assms show ?thesis by (simp add: main_def ThreadPoolExecutor_def init_sched_def)
qed

theorem main_nonpositive_max_raises_witness:
  "email (example_args 0) \<noteq> [] \<and> CHR ''@'' \<in> set (email (example_args 0)) \<and>
   max_arg (example_args 0) \<le> 0 \<and>
   os_makedirs paged_world (outdir (example_args 0)) = Inr () \<and>
   outcome (main paged_world (example_args 0)) = Inl ValueError \<and>
   searches (final (main paged_world (example_args 0))) = [] \<and>
   os_makedirs paged_world (outdir ((example_args 0)\<lparr>outdir := ''/proc/out''\<rparr>)) = Inl OSError \<and>
   outcome (main paged_world ((example_args 0)\<lparr>outdir := ''/proc/out''\<rparr>)) = Inl OSError \<and>
   searches (final (main paged_world ((example_args 0)\<lparr>outdir := ''/proc/out''\<rparr>))) = []"
  using main_nonpositive_max_raises [of "example_args 0" paged_world]
    main_nonpositive_max_raises [of "(example_args 0)\<lparr>outdir := ''/proc/out''\<rparr>" paged_world]
  by (simp add: example_args_def os_makedirs_def paged_world_def)

text \<open>
  C10 as stated fails: with \<^verbatim>\<open>--max 0\<close> and \<^verbatim>\<open>--outdir ''\<close> the run ends in the
  \<^verbatim>\<open>FileNotFoundError\<close> of \<^verbatim>\<open>os.makedirs\<close>, before the worker pool is constructed.
\<close>

theorem main_empty_outdir_raises_before_pool:
  "email ((example_args 0)\<lparr>outdir := []\<rparr>) \<noteq> [] \<and>
   CHR ''@'' \<in> set (email ((example_args 0)\<lparr>outdir := []\<rparr>)) \<and>
   max_arg ((example_args 0)\<lparr>outdir := []\<rparr>) \<le> 0 \<and>
   outcome (main overshoot_world ((example_args 0)\<lparr>outdir := []\<rparr>)) = Inl FileNotFoundError \<and>
   outcome (main overshoot_world ((example_args 0)\<lparr>outdir := []\<rparr>)) \<noteq> Inl ValueError"
  by (simp add: main_def os_makedirs_def example_args_def)

end
